theory Spec2Isabelle
  imports Complex_Main
begin

section \<open>Numeric arrays\<close>

text \<open>
  The program is numpy code over floating-point arrays.  A one-dimensional array is a
  list of reals, a two-dimensional array the list of its rows.  Floating-point numbers
  are read as real numbers: rounding, infinities and NaN are outside this development,
  which is about the control flow and the bookkeeping of the certifier.  numpy checks at
  every operation that the shapes of its operands agree; here two operands of one
  operation are lists of the same length.
\<close>

type_synonym vec = "real list"
type_synonym matrix = "real list list"

datatype error =
    KeyError
  | SolverError
  | TypeError
  | ZeroDivisionError
  | AssertionError
  | ValueError
  | OverflowError
  | IndexError
  | UnboundLocalError

text \<open>\<^verbatim>\<open>u.dot(v)\<close> for two one-dimensional arrays.\<close>

definition dot :: "vec \<Rightarrow> vec \<Rightarrow> real" where
  "dot u v = sum_list (map2 (*) u v)"

text \<open>\<^verbatim>\<open>u - v\<close>, \<^verbatim>\<open>u + v\<close>, \<^verbatim>\<open>c * v\<close> and \<^verbatim>\<open>v / c\<close>, elementwise.\<close>

definition vsub :: "vec \<Rightarrow> vec \<Rightarrow> vec" where
  "vsub u v = map2 (-) u v"

definition vadd :: "vec \<Rightarrow> vec \<Rightarrow> vec" where
  "vadd u v = map2 (+) u v"

definition vscale :: "real \<Rightarrow> vec \<Rightarrow> vec" where
  "vscale c v = map ((*) c) v"

definition vdiv :: "vec \<Rightarrow> real \<Rightarrow> vec" where
  "vdiv v c = map (\<lambda>z. z / c) v"

text \<open>\<^verbatim>\<open>np.linalg.norm(v)\<close>: the Euclidean norm.\<close>

definition linalg_norm :: "vec \<Rightarrow> real" where
  "linalg_norm v = sqrt (sum_list (map (\<lambda>z. z\<^sup>2) v))"

text \<open>\<^verbatim>\<open>np.mean\<close> of a one-dimensional array.\<close>

definition np_mean :: "real list \<Rightarrow> real" where
  "np_mean zs = sum_list zs / real (length zs)"

text \<open>\<^verbatim>\<open>X.shape[1]\<close>, read off the first row.\<close>

definition shape1 :: "matrix \<Rightarrow> nat" where
  "shape1 X = (case X of [] \<Rightarrow> 0 | r # _ \<Rightarrow> length r)"

text \<open>\<^verbatim>\<open>np.sum(rows, axis=0)\<close> of a matrix with \<open>d\<close> columns: the sum of no rows is
  the zero vector of length \<open>d\<close>.\<close>

definition sum_rows :: "nat \<Rightarrow> matrix \<Rightarrow> vec" where
  "sum_rows d rows = foldr vadd rows (replicate d 0)"

section \<open>The hinge loss and its gradient (legacy/upper\_bounds.py)\<close>

text \<open>\<^verbatim>\<open>hinge_loss(w, b, X, Y)\<close> with \<^verbatim>\<open>sample_weights=None\<close>, the only way the
  certifier calls it: \<^verbatim>\<open>np.mean(np.maximum(1 - Y * (X.dot(w) + b), 0))\<close>.\<close>

definition hinge_loss :: "vec \<Rightarrow> real \<Rightarrow> matrix \<Rightarrow> real list \<Rightarrow> real" where
  "hinge_loss w b X Y = np_mean (map2 (\<lambda>x y. max (1 - y * (dot x w + b)) 0) X Y)"

text \<open>\<^verbatim>\<open>hinge_grad(w, b, X, Y)\<close> on a dense \<open>X\<close>: the support vectors are the rows whose
  margin is below 1; both sums are divided by the number of rows of \<open>X\<close>.\<close>

definition support_vectors :: "vec \<Rightarrow> real \<Rightarrow> matrix \<Rightarrow> real list \<Rightarrow> (vec \<times> real) list" where
  "support_vectors w b X Y = filter (\<lambda>(x, y). y * (dot x w + b) < 1) (zip X Y)"

definition hinge_grad :: "vec \<Rightarrow> real \<Rightarrow> matrix \<Rightarrow> real list \<Rightarrow> vec \<times> real" where
  "hinge_grad w b X Y =
     (let sv = support_vectors w b X Y;
          grad_w = vdiv (sum_rows (shape1 X) (map (\<lambda>(x, y). vscale (- y) x) sv)) (real (length X));
          grad_b = sum_list (map (\<lambda>(x, y). - y) sv) / real (length X)
      in (grad_w, grad_b))"

section \<open>The pipeline and the certifier's state\<close>

text \<open>
  What \<^verbatim>\<open>UpperBound.__init__\<close> extracts from the pipeline, and the tunables.  The
  classifier's \<open>loss\<close> and \<open>loss_grad\<close> and the convex solver are capabilities supplied
  from outside: \<open>solve y w i\<close> stands for the projection and the convex program of
  \<^verbatim>\<open>minimize_over_feasible_set\<close> for label \<open>y\<close>, weights \<open>w\<close> and class index \<open>i\<close>, and
  fails when the solver does.  \<open>label_order\<close> is the order in which Python enumerates
  \<^verbatim>\<open>set(self.y)\<close>.
\<close>

record pipeline =
  loss :: "matrix \<Rightarrow> real list \<Rightarrow> vec \<Rightarrow> real \<Rightarrow> real"
  loss_grad :: "matrix \<Rightarrow> real list \<Rightarrow> vec \<Rightarrow> real \<Rightarrow> vec \<times> real"
  solve :: "real \<Rightarrow> vec \<Rightarrow> nat \<Rightarrow> error + vec"
  features :: matrix
  labels :: "real list"
  label_order :: "real list"
  class_map :: "real \<rightharpoonup> nat"
  init_w :: vec
  init_b :: real
  norm_sq_constraint :: real
  max_iter :: nat
  learning_rate :: real

definition label_order_ok :: "pipeline \<Rightarrow> bool" where
  "label_order_ok p = (distinct (label_order p) \<and> set (label_order p) = set (labels p))"

text \<open>The attributes of an \<^verbatim>\<open>UpperBound\<close> object that \<^verbatim>\<open>cert_rda\<close> writes; \<open>None\<close> is
  Python's \<^verbatim>\<open>None\<close>, their value after \<^verbatim>\<open>__init__\<close>.\<close>

record upper_bound =
  x_c :: "matrix option"
  y_c :: "real list option"
  best_upper_bound :: "real option"
  best_upper_good_loss :: "real option"
  best_upper_bad_loss :: "real option"
  best_upper_params_norm_sq :: "real option"
  best_upper_good_acc :: "real option"
  best_upper_bad_acc :: "real option"

definition fresh_upper_bound :: upper_bound where
  "fresh_upper_bound =
     \<lparr>x_c = None, y_c = None, best_upper_bound = None, best_upper_good_loss = None,
      best_upper_bad_loss = None, best_upper_params_norm_sq = None,
      best_upper_good_acc = None, best_upper_bad_acc = None\<rparr>"

text \<open>The local variables of the loop, shared by \<^verbatim>\<open>cert_rda\<close> and
  \<^verbatim>\<open>generate_upper_and_lower_bounds\<close>: \<open>theta_w\<close> and \<open>theta_b\<close> are the model \<open>w\<close>,
  \<open>b\<close>; \<open>local_best\<close> is the local variable \<^verbatim>\<open>best_upper_bound\<close>.\<close>

record rda_locals =
  x_bs :: matrix
  y_bs :: "real list"
  sum_of_grads_w :: vec
  sum_of_grads_b :: real
  current_lambda :: real
  theta_w :: vec
  theta_b :: real
  local_best :: real

text \<open>The other best-bound locals of \<^verbatim>\<open>generate_upper_and_lower_bounds\<close>.  One block
  assigns the five together, so the loop carries them as one optional value: \<open>None\<close>
  while they are unassigned.\<close>

record legacy_best =
  lb_good_loss :: real
  lb_bad_loss :: real
  lb_params_norm_sq :: real
  lb_good_acc :: real
  lb_bad_acc :: real

text \<open>Line 1 of the algorithm: \<^verbatim>\<open>1 / learning_rate\<close> raises for a zero learning rate.\<close>

definition init_locals :: "pipeline \<Rightarrow> error + rda_locals" where
  "init_locals p =
     (if learning_rate p = 0 then Inl ZeroDivisionError
      else Inr \<lparr>x_bs = replicate (max_iter p) (replicate (shape1 (features p)) 0),
                y_bs = replicate (max_iter p) 0,
                sum_of_grads_w = replicate (shape1 (features p)) 0,
                sum_of_grads_b = 0,
                current_lambda = 1 / learning_rate p,
                theta_w = init_w p,
                theta_b = init_b p,
                local_best = 10000\<rparr>)"

section \<open>One iteration\<close>

text \<open>\<^verbatim>\<open>minimize_over_feasible_set(y, w)\<close>: the class index is looked up in
  \<^verbatim>\<open>class_map\<close>, which raises for a label it does not hold.\<close>

definition minimize_over_feasible_set :: "pipeline \<Rightarrow> real \<Rightarrow> vec \<Rightarrow> error + vec" where
  "minimize_over_feasible_set p y w =
     (case class_map p y of None \<Rightarrow> Inl KeyError | Some y_ind \<Rightarrow> solve p y w y_ind)"

text \<open>The search for the worst margin, \<^verbatim>\<open>for y_b in set(self.y)\<close>: \<open>worst\<close> holds
  \<^verbatim>\<open>(worst_margin, worst_y_b, worst_x_b)\<close>, \<open>None\<close> while \<^verbatim>\<open>worst_margin is None\<close>.\<close>

fun worst_search ::
  "pipeline \<Rightarrow> vec \<Rightarrow> real \<Rightarrow> real list \<Rightarrow> (real \<times> real \<times> vec) option
     \<Rightarrow> error + (real \<times> real \<times> vec) option" where
  "worst_search p w b [] worst = Inr worst"
| "worst_search p w b (y_b # ys) worst =
     (case minimize_over_feasible_set p y_b w of
        Inl e \<Rightarrow> Inl e
      | Inr x_b \<Rightarrow>
          (let margin = y_b * (dot w x_b + b) in
           case worst of
             None \<Rightarrow> worst_search p w b ys (Some (margin, y_b, x_b))
           | Some (worst_margin, worst_y_b, worst_x_b) \<Rightarrow>
               if margin < worst_margin then worst_search p w b ys (Some (margin, y_b, x_b))
               else worst_search p w b ys worst))"

text \<open>With no label at all \<^verbatim>\<open>worst_margin\<close> is still \<^verbatim>\<open>None\<close> at
  \<^verbatim>\<open>if worst_margin < 1\<close>, which raises.\<close>

definition find_attack_point :: "pipeline \<Rightarrow> vec \<Rightarrow> real \<Rightarrow> error + (real \<times> real \<times> vec)" where
  "find_attack_point p w b =
     (case worst_search p w b (label_order p) None of
        Inl e \<Rightarrow> Inl e
      | Inr None \<Rightarrow> Inl TypeError
      | Inr (Some worst) \<Rightarrow> Inr worst)"

text \<open>\<^verbatim>\<open>if worst_margin < 1: grad_w -= epsilon * worst_y_b * worst_x_b;
  grad_b -= epsilon * worst_y_b\<close>.\<close>

definition fold_attack :: "real \<Rightarrow> real \<times> real \<times> vec \<Rightarrow> vec \<times> real \<Rightarrow> vec \<times> real" where
  "fold_attack epsilon worst grad =
     (case worst of (worst_margin, worst_y_b, worst_x_b) \<Rightarrow>
      case grad of (grad_w, grad_b) \<Rightarrow>
        if worst_margin < 1
        then (vsub grad_w (vscale (epsilon * worst_y_b) worst_x_b), grad_b - epsilon * worst_y_b)
        else (grad_w, grad_b))"

text \<open>What one iteration computes from the current model before it touches the best
  bound: the gradient handed to the update, the attack point, and the losses.\<close>

record iterate =
  it_grad_w :: vec
  it_grad_b :: real
  it_worst_margin :: real
  it_worst_y_b :: real
  it_worst_x_b :: vec
  it_bad_loss :: real
  it_good_loss :: real
  it_params_norm_sq :: real
  it_total_loss :: real
  it_good_acc :: real

definition good_acc :: "pipeline \<Rightarrow> vec \<Rightarrow> real \<Rightarrow> real" where
  "good_acc p w b =
     np_mean (map2 (\<lambda>x y. if y * (dot x w + b) > 0 then 1 else 0) (features p) (labels p))"

definition measure_iterate :: "pipeline \<Rightarrow> real \<Rightarrow> vec \<Rightarrow> real \<Rightarrow> error + iterate" where
  "measure_iterate p epsilon w b =
     (case find_attack_point p w b of
        Inl e \<Rightarrow> Inl e
      | Inr (worst_margin, worst_y_b, worst_x_b) \<Rightarrow>
          (let grad = fold_attack epsilon (worst_margin, worst_y_b, worst_x_b)
                        (loss_grad p (features p) (labels p) w b);
               bad_loss = loss p [worst_x_b] [worst_y_b] w b;
               good_loss = loss p (features p) (labels p) w b
           in Inr \<lparr>it_grad_w = fst grad, it_grad_b = snd grad,
                    it_worst_margin = worst_margin, it_worst_y_b = worst_y_b,
                    it_worst_x_b = worst_x_b,
                    it_bad_loss = bad_loss, it_good_loss = good_loss,
                    it_params_norm_sq = (linalg_norm w)\<^sup>2 + b\<^sup>2,
                    it_total_loss = good_loss + epsilon * bad_loss,
                    it_good_acc = good_acc p w b\<rparr>))"

text \<open>Line 6 of the algorithm, the dual-averaging update: the sums of gradients, the
  ratchet on \<^verbatim>\<open>current_lambda\<close>, and the new model.\<close>

definition rda_update :: "pipeline \<Rightarrow> iterate \<Rightarrow> rda_locals \<Rightarrow> rda_locals" where
  "rda_update p it s =
     (let sw = vsub (sum_of_grads_w s) (it_grad_w it);
          sb = sum_of_grads_b s - it_grad_b it;
          candidate_lambda = sqrt ((linalg_norm sw)\<^sup>2 + sb\<^sup>2) / sqrt (norm_sq_constraint p);
          lam = (if candidate_lambda > current_lambda s then candidate_lambda
                 else current_lambda s)
      in s\<lparr>sum_of_grads_w := sw, sum_of_grads_b := sb, current_lambda := lam,
            theta_w := vdiv sw lam, theta_b := sb / lam\<rparr>)"

text \<open>\<^verbatim>\<open>x_bs[iter_idx, :] = worst_x_b; y_bs[iter_idx] = worst_y_b\<close>.\<close>

definition store_attack :: "nat \<Rightarrow> iterate \<Rightarrow> rda_locals \<Rightarrow> rda_locals" where
  "store_attack iter_idx it s =
     s\<lparr>x_bs := (x_bs s)[iter_idx := it_worst_x_b it],
       y_bs := (y_bs s)[iter_idx := it_worst_y_b it]\<rparr>"

definition bad_acc :: "iterate \<Rightarrow> real" where
  "bad_acc it = (if it_worst_margin it > 0 then 1 else 0)"

text \<open>\<^verbatim>\<open>cert_rda\<close> writes the best bound straight into the object's attributes.\<close>

definition record_best :: "iterate \<Rightarrow> upper_bound \<Rightarrow> upper_bound" where
  "record_best it self =
     self\<lparr>best_upper_bound := Some (it_total_loss it),
          best_upper_good_loss := Some (it_good_loss it),
          best_upper_bad_loss := Some (it_bad_loss it),
          best_upper_params_norm_sq := Some (it_params_norm_sq it),
          best_upper_good_acc := Some (it_good_acc it),
          best_upper_bad_acc := Some (bad_acc it)\<rparr>"

section \<open>UpperBound.cert\_rda and UpperBound.certify (certify/poison/upper\_bound.py)\<close>

text \<open>
  A call returns its value, or the exception it raised, together with the object as the
  call left it: the attributes written before an exception stay written.  In the body of
  the loop the guard reads the local variable \<^verbatim>\<open>best_upper_bound\<close>, and the assignments
  go to the attributes; nothing assigns to the local variable.
\<close>

definition cert_rda_iter ::
  "pipeline \<Rightarrow> real \<Rightarrow> nat \<Rightarrow> rda_locals \<Rightarrow> upper_bound \<Rightarrow> (error + rda_locals) \<times> upper_bound" where
  "cert_rda_iter p epsilon iter_idx s self =
     (case measure_iterate p epsilon (theta_w s) (theta_b s) of
        Inl e \<Rightarrow> (Inl e, self)
      | Inr it \<Rightarrow>
          (Inr (rda_update p it (store_attack iter_idx it s)),
           if local_best s > it_total_loss it then record_best it self else self))"

fun cert_rda_loop ::
  "pipeline \<Rightarrow> real \<Rightarrow> nat list \<Rightarrow> rda_locals \<Rightarrow> upper_bound \<Rightarrow> (error + rda_locals) \<times> upper_bound" where
  "cert_rda_loop p epsilon [] s self = (Inr s, self)"
| "cert_rda_loop p epsilon (iter_idx # rest) s self =
     (case cert_rda_iter p epsilon iter_idx s self of
        (Inl e, self') \<Rightarrow> (Inl e, self')
      | (Inr s', self') \<Rightarrow> cert_rda_loop p epsilon rest s' self')"

type_synonym bound_triple = "real option \<times> real option \<times> real option"

definition cert_rda ::
  "pipeline \<Rightarrow> real \<Rightarrow> upper_bound \<Rightarrow> (error + bound_triple) \<times> upper_bound" where
  "cert_rda p epsilon self =
     (case init_locals p of
        Inl e \<Rightarrow> (Inl e, self)
      | Inr s0 \<Rightarrow>
          (case cert_rda_loop p epsilon [0..<max_iter p] s0 self of
             (Inl e, self') \<Rightarrow> (Inl e, self')
           | (Inr s, self') \<Rightarrow>
               (Inr (best_upper_bound self', best_upper_good_acc self', best_upper_bad_loss self'),
                self'\<lparr>x_c := Some (x_bs s), y_c := Some (y_bs s)\<rparr>)))"

text \<open>\<^verbatim>\<open>certify\<close>: one call of \<^verbatim>\<open>cert_rda\<close> per epsilon, on the same object; the three
  components of each returned triple fill the arrays \<^verbatim>\<open>total_loss\<close>, \<^verbatim>\<open>good_loss\<close> and
  \<^verbatim>\<open>bad_loss\<close> at the epsilon's index.  An entry \<open>None\<close> marks an index at which
  \<^verbatim>\<open>cert_rda\<close> returned \<^verbatim>\<open>None\<close>.\<close>

fun certify_loop ::
  "pipeline \<Rightarrow> real list \<Rightarrow> upper_bound \<Rightarrow> (error + bound_triple list) \<times> upper_bound" where
  "certify_loop p [] self = (Inr [], self)"
| "certify_loop p (epsilon # rest) self =
     (case cert_rda p epsilon self of
        (Inl e, self') \<Rightarrow> (Inl e, self')
      | (Inr r, self') \<Rightarrow>
          (case certify_loop p rest self' of
             (Inl e, self'') \<Rightarrow> (Inl e, self'')
           | (Inr rs, self'') \<Rightarrow> (Inr (r # rs), self'')))"

definition certify ::
  "pipeline \<Rightarrow> real list \<Rightarrow> upper_bound
     \<Rightarrow> (error + real option list \<times> real option list \<times> real option list) \<times> upper_bound" where
  "certify p epsilons self =
     (case certify_loop p epsilons self of
        (Inl e, self') \<Rightarrow> (Inl e, self')
      | (Inr rs, self') \<Rightarrow>
          (Inr (map fst rs, map (\<lambda>r. fst (snd r)) rs, map (\<lambda>r. snd (snd r)) rs), self'))"

section \<open>The lower-bound sampler (legacy/upper\_bounds.py)\<close>

text \<open>\<^verbatim>\<open>int(np.round(r))\<close>: numpy rounds a half to the even neighbour.\<close>

definition np_round :: "real \<Rightarrow> int" where
  "np_round r =
     (let f = \<lfloor>r\<rfloor>; d = r - of_int f
      in if d < 1 / 2 then f else if 1 / 2 < d then f + 1 else if even f then f else f + 1)"

text \<open>
  The argument of \<^verbatim>\<open>np.round\<close> is the product \<^verbatim>\<open>epsilon * X_train.shape[0]\<close> of two
  doubles, itself a double: the exact product rounded to the nearest number with a
  53-bit significand, a tie going to the even significand.  \<open>float_round x\<close> is that
  number: \<open>ulp\<close> is the spacing of the doubles in the binade of \<open>x\<close>.  (The exponent is
  not bounded here: products below \<open>2 ^ (-1022)\<close> or from \<open>2 ^ 1024\<close> on, and the values
  \<^verbatim>\<open>inf\<close> and \<^verbatim>\<open>nan\<close>, are not covered.)  The count of points is an integer below
  \<open>2 ^ 53\<close> and converts to a double exactly.
\<close>

definition float_round :: "real \<Rightarrow> real" where
  "float_round x =
     (if x = 0 then 0
      else let ulp = 2 powr (of_int \<lfloor>log 2 \<bar>x\<bar>\<rfloor> - 52)
           in of_int (np_round (x / ulp)) * ulp)"

definition float_mul :: "real \<Rightarrow> real \<Rightarrow> real" where
  "float_mul x y = float_round (x * y)"

text \<open>
  \<^verbatim>\<open>np.random.choice(a, size=k, replace=False)\<close> is the random source, a parameter
  \<open>choice a k\<close> of the model.  What numpy does: for a population \<open>0 < a\<close> and
  \<open>0 \<le> k \<le> a\<close> (with \<open>k < 2 ^ 63\<close>) it returns \<open>k\<close> distinct members of \<open>0, \<dots>, a - 1\<close>; a size \<open>k\<close> that fits
  a signed 64-bit integer and is negative or above \<open>a\<close> raises \<^verbatim>\<open>ValueError\<close>; with a
  population \<open>0 < a\<close>, a size from \<open>2 ^ 63\<close> on does not convert to the C integer of the
  size and raises \<^verbatim>\<open>OverflowError\<close>.  Nothing is said of the other cases.
\<close>

definition choice_ok :: "(int \<Rightarrow> int \<Rightarrow> error + nat list) \<Rightarrow> bool" where
  "choice_ok choice =
     (\<forall>a k.
        (0 < a \<and> 0 \<le> k \<and> k \<le> a \<and> k < 2 ^ 63 \<longrightarrow>
           (\<exists>idx. choice a k = Inr idx \<and> int (length idx) = k \<and> distinct idx
                  \<and> (\<forall>i \<in> set idx. int i < a)))
        \<and> ((k < 0 \<or> a < k) \<and> - (2 ^ 63) \<le> k \<and> k < 2 ^ 63 \<longrightarrow> choice a k = Inl ValueError)
        \<and> (0 < a \<and> 2 ^ 63 \<le> k \<longrightarrow> choice a k = Inl OverflowError))"

text \<open>A random source for worked examples: the first \<open>k\<close> members of the population.\<close>

definition choice_first :: "int \<Rightarrow> int \<Rightarrow> error + nat list" where
  "choice_first a k =
     (if 0 < a \<and> 2 ^ 63 \<le> k then Inl OverflowError
      else if k < 0 \<or> a < k then Inl ValueError
      else Inr [0..<nat k])"

text \<open>\<^verbatim>\<open>xs[idx]\<close> for an array of integer indices: a negative index counts from the
  end, an index out of range raises.\<close>

fun np_take :: "'a list \<Rightarrow> int list \<Rightarrow> error + 'a list" where
  "np_take xs [] = Inr []"
| "np_take xs (i # rest) =
     (let n = int (length xs); j = (if i < 0 then n + i else i)
      in if 0 \<le> j \<and> j < n
         then (case np_take xs rest of Inl e \<Rightarrow> Inl e | Inr ys \<Rightarrow> Inr (xs ! nat j # ys))
         else Inl IndexError)"

text \<open>The indices \<^verbatim>\<open>idx_to_sample\<close> that \<^verbatim>\<open>sample_lower_bound_attack\<close> draws.\<close>

definition idx_to_sample ::
  "(int \<Rightarrow> int \<Rightarrow> error + nat list) \<Rightarrow> nat \<Rightarrow> nat \<Rightarrow> real \<Rightarrow> int \<Rightarrow> error + int list" where
  "idx_to_sample choice n_bs n_train epsilon num_iter_to_throw_out =
     (let num_iter = int n_bs - num_iter_to_throw_out
      in case choice num_iter (np_round (float_mul epsilon (real n_train))) of
           Inl e \<Rightarrow> Inl e
         | Inr idx \<Rightarrow> Inr (map (\<lambda>i. int i + num_iter_to_throw_out) idx))"

text \<open>The result of \<^verbatim>\<open>sample_lower_bound_attack\<close>; a slice is its pair
  \<^verbatim>\<open>(start, stop)\<close>.\<close>

record poisoned =
  X_modified :: matrix
  Y_modified :: "real list"
  idx_train :: "nat \<times> nat"
  idx_poison :: "nat \<times> nat"

definition sample_lower_bound_attack ::
  "(int \<Rightarrow> int \<Rightarrow> error + nat list) \<Rightarrow> matrix \<Rightarrow> real list \<Rightarrow> matrix \<Rightarrow> real list
     \<Rightarrow> real \<Rightarrow> int \<Rightarrow> error + poisoned" where
  "sample_lower_bound_attack choice X_train Y_train xbs ybs epsilon num_iter_to_throw_out =
     (if length xbs \<noteq> length ybs then Inl AssertionError
      else case idx_to_sample choice (length xbs) (length X_train) epsilon num_iter_to_throw_out of
        Inl e \<Rightarrow> Inl e
      | Inr idx \<Rightarrow>
          (case np_take xbs idx of
             Inl e \<Rightarrow> Inl e
           | Inr xs \<Rightarrow>
               (case np_take ybs idx of
                  Inl e \<Rightarrow> Inl e
                | Inr ys \<Rightarrow>
                    Inr \<lparr>X_modified = X_train @ xs, Y_modified = Y_train @ ys,
                         idx_train = (0, length X_train),
                         idx_poison = (length X_train, length (X_train @ xs))\<rparr>)))"

text \<open>\<^verbatim>\<open>xs[start:stop]\<close> for a slice within the array.\<close>

definition slice :: "'a list \<Rightarrow> nat \<times> nat \<Rightarrow> 'a list" where
  "slice xs r = take (snd r - fst r) (drop (fst r) xs)"

section \<open>generate\_upper\_and\_lower\_bounds (legacy/upper\_bounds.py)\<close>

text \<open>The legacy loop is the loop of \<^verbatim>\<open>cert_rda\<close> with the hinge loss and its gradient
  in the place of the classifier's capabilities.  Its best bound lives in local
  variables, and the guarded block assigns the local \<^verbatim>\<open>best_upper_bound\<close> first.\<close>

definition legacy_pipeline :: "pipeline \<Rightarrow> pipeline" where
  "legacy_pipeline p =
     p\<lparr>loss := (\<lambda>X Y w b. hinge_loss w b X Y), loss_grad := (\<lambda>X Y w b. hinge_grad w b X Y)\<rparr>"

definition assign_best :: "iterate \<Rightarrow> legacy_best" where
  "assign_best it =
     \<lparr>lb_good_loss = it_good_loss it, lb_bad_loss = it_bad_loss it,
      lb_params_norm_sq = it_params_norm_sq it, lb_good_acc = it_good_acc it,
      lb_bad_acc = bad_acc it\<rparr>"

definition legacy_iter ::
  "pipeline \<Rightarrow> real \<Rightarrow> nat \<Rightarrow> rda_locals \<times> legacy_best option
     \<Rightarrow> error + rda_locals \<times> legacy_best option" where
  "legacy_iter p epsilon iter_idx st =
     (case st of (s, best) \<Rightarrow>
      case measure_iterate (legacy_pipeline p) epsilon (theta_w s) (theta_b s) of
        Inl e \<Rightarrow> Inl e
      | Inr it \<Rightarrow>
          Inr (if local_best s > it_total_loss it
               then (rda_update p it (store_attack iter_idx it (s\<lparr>local_best := it_total_loss it\<rparr>)),
                     Some (assign_best it))
               else (rda_update p it (store_attack iter_idx it s), best)))"

fun legacy_loop ::
  "pipeline \<Rightarrow> real \<Rightarrow> nat list \<Rightarrow> rda_locals \<times> legacy_best option
     \<Rightarrow> error + rda_locals \<times> legacy_best option" where
  "legacy_loop p epsilon [] st = Inr st"
| "legacy_loop p epsilon (iter_idx # rest) st =
     (case legacy_iter p epsilon iter_idx st of
        Inl e \<Rightarrow> Inl e
      | Inr st' \<Rightarrow> legacy_loop p epsilon rest st')"

record bounds =
  lower_bound_data :: poisoned
  upper_bound_total :: real
  upper_bound_parts :: legacy_best

text \<open>After the loop the sampler runs, and the return statement reads the best-bound
  locals, which raises when the guarded block never ran.\<close>

definition generate_upper_and_lower_bounds ::
  "(int \<Rightarrow> int \<Rightarrow> error + nat list) \<Rightarrow> pipeline \<Rightarrow> real \<Rightarrow> int \<Rightarrow> error + bounds" where
  "generate_upper_and_lower_bounds choice p epsilon num_iter_to_throw_out =
     (case init_locals p of
        Inl e \<Rightarrow> Inl e
      | Inr s0 \<Rightarrow>
          (case legacy_loop p epsilon [0..<max_iter p] (s0, None) of
             Inl e \<Rightarrow> Inl e
           | Inr (s, best) \<Rightarrow>
               (case sample_lower_bound_attack choice (features p) (labels p) (x_bs s) (y_bs s)
                       epsilon num_iter_to_throw_out of
                  Inl e \<Rightarrow> Inl e
                | Inr data \<Rightarrow>
                    (case best of
                       None \<Rightarrow> Inl UnboundLocalError
                     | Some parts \<Rightarrow>
                         Inr \<lparr>lower_bound_data = data, upper_bound_total = local_best s,
                              upper_bound_parts = parts\<rparr>))))"

section \<open>The candidates of the worst-margin search\<close>

text \<open>The candidate for one label: its margin, the label, and the attack point that the
  feasible-set oracle returns for it.\<close>

definition candidate :: "pipeline \<Rightarrow> vec \<Rightarrow> real \<Rightarrow> real \<Rightarrow> error + (real \<times> real \<times> vec)" where
  "candidate p w b y_b =
     (case minimize_over_feasible_set p y_b w of
        Inl e \<Rightarrow> Inl e
      | Inr x_b \<Rightarrow> Inr (y_b * (dot w x_b + b), y_b, x_b))"

text \<open>An incumbent \<open>a\<close> survives the labels \<open>ls\<close> when none of them has a smaller margin;
  a candidate \<open>c\<close> replaces it when \<open>c\<close> is the first of \<open>ls\<close> to reach its margin.\<close>

definition kept :: "pipeline \<Rightarrow> vec \<Rightarrow> real \<Rightarrow> real list \<Rightarrow> (real \<times> real \<times> vec) \<Rightarrow> bool" where
  "kept p w b ls a = (\<forall>l \<in> set ls. \<exists>c. candidate p w b l = Inr c \<and> fst a \<le> fst c)"

definition replaced :: "pipeline \<Rightarrow> vec \<Rightarrow> real \<Rightarrow> real list \<Rightarrow> (real \<times> real \<times> vec) \<Rightarrow> bool" where
  "replaced p w b ls c =
     (\<exists>pre l post.
        ls = pre @ l # post \<and> candidate p w b l = Inr c
        \<and> (\<forall>l' \<in> set pre. \<exists>c'. candidate p w b l' = Inr c' \<and> fst c < fst c')
        \<and> (\<forall>l' \<in> set post. \<exists>c'. candidate p w b l' = Inr c' \<and> fst c \<le> fst c'))"

section \<open>get\_projection\_matrix (legacy/upper\_bounds.py)\<close>

text \<open>
  \<^verbatim>\<open>scipy.linalg.orth\<close> and the random rows are parameters: \<open>orth M\<close> stands for
  \<^verbatim>\<open>orth(M.T).T\<close>, an orthonormal basis of the row space of \<open>M\<close> as rows, and \<open>draws k\<close>
  for the \<open>k\<close>-th row that \<^verbatim>\<open>np.random.normal\<close> returns.
\<close>

definition orthonormal_rows :: "matrix \<Rightarrow> bool" where
  "orthonormal_rows P =
     (\<forall>i < length P. \<forall>j < length P. dot (P ! i) (P ! j) = (if i = j then 1 else 0))"

definition rows_of_dim :: "nat \<Rightarrow> matrix \<Rightarrow> bool" where
  "rows_of_dim d M = list_all (\<lambda>r. length r = d) M"

text \<open>
  What is left of a row \<open>r\<close> once its components along the rows of \<open>B\<close> are taken away,
  one row of \<open>B\<close> after the other.  For orthonormal rows \<open>B\<close> this is \<open>r\<close> minus its
  projection on their span, and \<open>r\<close> lies outside the span exactly when some entry of
  it is not zero.
\<close>

definition residual :: "matrix \<Rightarrow> vec \<Rightarrow> vec" where
  "residual B r = foldl (\<lambda>v q. vsub v (vscale (dot v q) q)) r B"

definition outside_span :: "matrix \<Rightarrow> vec \<Rightarrow> bool" where
  "outside_span B r = (\<not> list_all (\<lambda>z. z = 0) (residual B r))"

text \<open>
  What is used of \<open>orth\<close>.  On a matrix with columns \<open>d\<close> its rows are orthonormal vectors
  of length \<open>d\<close>, and it has no more rows than its argument.  It returns as many rows as
  the rank of its argument: one more than \<open>P\<close> has, for orthonormal rows \<open>P\<close> followed by a
  row outside their span.
\<close>

definition orth_ok :: "(matrix \<Rightarrow> matrix) \<Rightarrow> bool" where
  "orth_ok orth =
     ((\<forall>M d. rows_of_dim d M \<longrightarrow>
         orthonormal_rows (orth M) \<and> length (orth M) \<le> length M \<and> rows_of_dim d (orth M))
      \<and> (\<forall>P r. orthonormal_rows P \<and> rows_of_dim (length r) P \<and> outside_span P r \<longrightarrow>
            length (orth (P @ [r])) = Suc (length P)))"

text \<open>The loop \<^verbatim>\<open>while P.shape[0] < 3\<close>; it need not end, and then the value is \<open>None\<close>.\<close>

partial_function (option) pad_to_three ::
  "(matrix \<Rightarrow> matrix) \<Rightarrow> (nat \<Rightarrow> vec) \<Rightarrow> nat \<Rightarrow> matrix \<Rightarrow> matrix option" where
  "pad_to_three orth draws k P =
     (if length P < 3 then pad_to_three orth draws (Suc k) (orth (P @ [draws k]))
      else Some P)"

definition get_projection_matrix ::
  "(matrix \<Rightarrow> matrix) \<Rightarrow> (nat \<Rightarrow> vec) \<Rightarrow> vec \<Rightarrow> vec \<Rightarrow> vec \<Rightarrow> matrix option" where
  "get_projection_matrix orth draws w centroid centroid_vec =
     pad_to_three orth draws 0 (orth [w, centroid, centroid_vec])"

text \<open>The matrix \<open>P\<close> after \<open>n\<close> rounds of padding.\<close>

fun padded :: "(matrix \<Rightarrow> matrix) \<Rightarrow> (nat \<Rightarrow> vec) \<Rightarrow> matrix \<Rightarrow> nat \<Rightarrow> matrix" where
  "padded orth draws P 0 = P"
| "padded orth draws P (Suc n) = orth (padded orth draws P n @ [draws n])"

text \<open>An orthonormalisation for worked examples, Gram-Schmidt: a row that the rows
  before it already span is dropped, any other is reduced by them and scaled to unit
  length.\<close>

fun gram_schmidt :: "matrix \<Rightarrow> matrix \<Rightarrow> matrix" where
  "gram_schmidt B [] = B"
| "gram_schmidt B (r # rs) =
     (let v = residual B r
      in if list_all (\<lambda>z. z = 0) v then gram_schmidt B rs
         else gram_schmidt (B @ [vscale (1 / linalg_norm v) v]) rs)"

definition orth_gs :: "matrix \<Rightarrow> matrix" where
  "orth_gs M = gram_schmidt [] M"

text \<open>Rows for the examples: the \<open>k\<close>-th draw is the \<open>k\<close>-th unit vector of length \<open>d\<close>
  (counted modulo \<open>d\<close>).\<close>

definition unit_draws :: "nat \<Rightarrow> nat \<Rightarrow> vec" where
  "unit_draws d k = map (\<lambda>i. if i = k mod d then 1 else 0) [0..<d]"

section \<open>A small pipeline for worked examples\<close>

text \<open>
  Two clean points \<open>(1)\<close> and \<open>(-1)\<close> with labels \<open>1\<close> and \<open>-1\<close>, the hinge loss, and a
  feasible-set oracle that answers \<open>(-3)\<close> for class 0 (label \<open>1\<close>) and \<open>(-1)\<close> for class 1
  (label \<open>-1\<close>).  The learning rate is \<open>1/2\<close> and the norm constraint \<open>1\<close>.
\<close>

definition toy_solve :: "real \<Rightarrow> vec \<Rightarrow> nat \<Rightarrow> error + vec" where
  "toy_solve y w i = (if i = 0 then Inr [- 3] else Inr [- 1])"

definition toy :: "nat \<Rightarrow> pipeline" where
  "toy n =
     \<lparr>loss = (\<lambda>X Y w b. hinge_loss w b X Y),
      loss_grad = (\<lambda>X Y w b. hinge_grad w b X Y),
      solve = toy_solve,
      features = [[1], [- 1]],
      labels = [1, - 1],
      label_order = [1, - 1],
      class_map = [1 \<mapsto> 0, - 1 \<mapsto> 1],
      init_w = [0],
      init_b = 0,
      norm_sq_constraint = 1,
      max_iter = n,
      learning_rate = 1 / 2\<rparr>"

text \<open>The same pipeline with a solver that fails once the weights have left zero.\<close>

definition flaky_solve :: "real \<Rightarrow> vec \<Rightarrow> nat \<Rightarrow> error + vec" where
  "flaky_solve y w i = (if w = [0] then toy_solve y w i else Inl SolverError)"

definition toy_flaky :: "nat \<Rightarrow> pipeline" where
  "toy_flaky n = (toy n)\<lparr>solve := flaky_solve\<rparr>"


text \<open>The locals of a run on this pipeline before its first iteration, and what its first
  two iterations compute for \<open>epsilon = 1/2\<close> (\<open>toy_it0\<close> at \<open>w = (0)\<close>, \<open>b = 0\<close>;
  \<open>toy_it1\<close> at \<open>w = (-1/4)\<close>, \<open>b = 1/4\<close>) and its first iteration for \<open>epsilon = 0\<close>
  (\<open>toy_it0z\<close>).\<close>

definition toy_s0 :: "nat \<Rightarrow> rda_locals" where
  "toy_s0 n =
     \<lparr>x_bs = replicate n [0], y_bs = replicate n 0, sum_of_grads_w = [0], sum_of_grads_b = 0,
      current_lambda = 2, theta_w = [0], theta_b = 0, local_best = 10000\<rparr>"

definition toy_it0 :: iterate where
  "toy_it0 =
     \<lparr>it_grad_w = [1 / 2], it_grad_b = - 1 / 2, it_worst_margin = 0, it_worst_y_b = 1,
      it_worst_x_b = [- 3], it_bad_loss = 1, it_good_loss = 1, it_params_norm_sq = 0,
      it_total_loss = 3 / 2, it_good_acc = 0\<rparr>"

definition toy_it1 :: iterate where
  "toy_it1 =
     \<lparr>it_grad_w = [- 3 / 2], it_grad_b = 1 / 2, it_worst_margin = - 1 / 2, it_worst_y_b = - 1,
      it_worst_x_b = [- 1], it_bad_loss = 3 / 2, it_good_loss = 5 / 4,
      it_params_norm_sq = 1 / 8, it_total_loss = 2, it_good_acc = 0\<rparr>"

definition toy_it0z :: iterate where
  "toy_it0z =
     \<lparr>it_grad_w = [- 1], it_grad_b = 0, it_worst_margin = 0, it_worst_y_b = 1,
      it_worst_x_b = [- 3], it_bad_loss = 1, it_good_loss = 1, it_params_norm_sq = 0,
      it_total_loss = 1, it_good_acc = 0\<rparr>"

section \<open>Evaluating the array operations\<close>

lemmas array_defs = dot_def vsub_def vadd_def vscale_def vdiv_def linalg_norm_def np_mean_def
  shape1_def sum_rows_def hinge_loss_def hinge_grad_def support_vectors_def

lemma dot_commute: "dot u v = dot v u"
proof -
  have "map2 (*) u v = map2 (*) v u" for u v :: vec
  proof (induction u arbitrary: v)
    case Nil
    then show ?case by simp
  next
    case (Cons a u)
    then show ?case by (cases v) (simp_all add: mult.commute)
  qed
  then show ?thesis by (simp add: dot_def)
qed

section \<open>The worst-margin search\<close>

lemma worst_search_Cons:
  "worst_search p w b (l # ls) acc =
     (case candidate p w b l of
        Inl e \<Rightarrow> Inl e
      | Inr c \<Rightarrow>
          (case acc of
             None \<Rightarrow> worst_search p w b ls (Some c)
           | Some a \<Rightarrow> if fst c < fst a then worst_search p w b ls (Some c)
                       else worst_search p w b ls acc))"
  by (auto simp: candidate_def Let_def split: sum.splits option.splits)

lemma replaced_here:
  "candidate p w b l = Inr c \<Longrightarrow> kept p w b ls c \<Longrightarrow> replaced p w b (l # ls) c"
  unfolding replaced_def kept_def
  by (rule exI[of _ "[]"], rule exI[of _ l], rule exI[of _ ls]) simp

lemma replaced_later:
  assumes "candidate p w b l = Inr c0" and "fst c < fst c0" and "replaced p w b ls c"
  shows "replaced p w b (l # ls) c"
proof -
  from assms(3) obtain pre l' post where h:
    "ls = pre @ l' # post" "candidate p w b l' = Inr c"
    "\<forall>l' \<in> set pre. \<exists>c'. candidate p w b l' = Inr c' \<and> fst c < fst c'"
    "\<forall>l' \<in> set post. \<exists>c'. candidate p w b l' = Inr c' \<and> fst c \<le> fst c'"
    unfolding replaced_def by blast
  have "l # ls = (l # pre) @ l' # post" using h(1) by simp
  moreover have "\<forall>l'' \<in> set (l # pre). \<exists>c'. candidate p w b l'' = Inr c' \<and> fst c < fst c'"
    using h(3) assms(1,2) by (cases c0) auto
  ultimately show ?thesis unfolding replaced_def using h(2,4) by blast
qed

lemma worst_search_acc:
  "worst_search p w b ls acc = Inr r \<Longrightarrow>
     (case acc of
        None \<Rightarrow> (ls = [] \<and> r = None) \<or> (\<exists>c. r = Some c \<and> replaced p w b ls c)
      | Some a \<Rightarrow> (r = Some a \<and> kept p w b ls a)
                 \<or> (\<exists>c. r = Some c \<and> fst c < fst a \<and> replaced p w b ls c))"
proof (induction ls arbitrary: acc)
  case Nil
  then show ?case by (simp add: kept_def split: option.splits)
next
  case (Cons l ls)
  from Cons.prems obtain c where c: "candidate p w b l = Inr c"
    by (cases "candidate p w b l") (simp_all add: worst_search_Cons del: worst_search.simps)
  show ?case
  proof (cases acc)
    case None
    then have run: "worst_search p w b ls (Some c) = Inr r"
      using Cons.prems c by (simp add: worst_search_Cons del: worst_search.simps)
    from Cons.IH[OF run]
    have "(r = Some c \<and> kept p w b ls c)
           \<or> (\<exists>c'. r = Some c' \<and> fst c' < fst c \<and> replaced p w b ls c')" by simp
    then have "\<exists>c'. r = Some c' \<and> replaced p w b (l # ls) c'"
      using replaced_here[OF c] replaced_later[OF c] by blast
    then show ?thesis using None by simp
  next
    case (Some a)
    show ?thesis
    proof (cases "fst c < fst a")
      case True
      then have run: "worst_search p w b ls (Some c) = Inr r"
        using Cons.prems c Some by (simp add: worst_search_Cons del: worst_search.simps)
      from Cons.IH[OF run]
      have "(r = Some c \<and> kept p w b ls c)
             \<or> (\<exists>c'. r = Some c' \<and> fst c' < fst c \<and> replaced p w b ls c')" by simp
      then have "\<exists>c'. r = Some c' \<and> fst c' < fst a \<and> replaced p w b (l # ls) c'"
        using replaced_here[OF c] replaced_later[OF c] True by fastforce
      then show ?thesis using Some by simp
    next
      case False
      then have run: "worst_search p w b ls (Some a) = Inr r"
        using Cons.prems c Some by (simp add: worst_search_Cons del: worst_search.simps)
      from Cons.IH[OF run]
      have d: "(r = Some a \<and> kept p w b ls a)
             \<or> (\<exists>c'. r = Some c' \<and> fst c' < fst a \<and> replaced p w b ls c')" by simp
      have k: "kept p w b ls a \<Longrightarrow> kept p w b (l # ls) a"
        using c False by (cases c) (auto simp: kept_def)
      have "\<And>c'. fst c' < fst a \<Longrightarrow> fst c' < fst c" using False by simp
      then have "(r = Some a \<and> kept p w b (l # ls) a)
             \<or> (\<exists>c'. r = Some c' \<and> fst c' < fst a \<and> replaced p w b (l # ls) c')"
        using d k replaced_later[OF c] by blast
      then show ?thesis using Some by simp
    qed
  qed
qed

lemma find_attack_point_replaced:
  assumes "find_attack_point p w b = Inr c"
  shows "replaced p w b (label_order p) c"
proof -
  from assms have run: "worst_search p w b (label_order p) None = Inr (Some c)"
    by (auto simp: find_attack_point_def split: sum.splits option.splits)
  from worst_search_acc[OF run] show ?thesis by simp
qed

lemma candidate_parts:
  "candidate p w b l = Inr (m, y, x) \<longleftrightarrow>
     minimize_over_feasible_set p l w = Inr x \<and> y = l \<and> m = l * (dot w x + b)"
  by (auto simp: candidate_def split: sum.splits)

lemma replaced_index:
  assumes "replaced p w b ls (m, y, x)"
  shows "\<exists>i < length ls.
           ls ! i = y \<and> minimize_over_feasible_set p y w = Inr x \<and> m = y * (dot w x + b)
           \<and> (\<forall>j < length ls. \<exists>x_j.
                 minimize_over_feasible_set p (ls ! j) w = Inr x_j
                 \<and> m \<le> ls ! j * (dot w x_j + b)
                 \<and> (j < i \<longrightarrow> m < ls ! j * (dot w x_j + b)))"
proof -
  from assms obtain pre l post where h:
    "ls = pre @ l # post" "candidate p w b l = Inr (m, y, x)"
    "\<forall>l' \<in> set pre. \<exists>c'. candidate p w b l' = Inr c' \<and> m < fst c'"
    "\<forall>l' \<in> set post. \<exists>c'. candidate p w b l' = Inr c' \<and> m \<le> fst c'"
    unfolding replaced_def by auto
  from h(2) have sel: "minimize_over_feasible_set p l w = Inr x" "y = l" "m = l * (dot w x + b)"
    by (simp_all add: candidate_parts)
  have each: "\<exists>x_j. minimize_over_feasible_set p (ls ! j) w = Inr x_j
                 \<and> m \<le> ls ! j * (dot w x_j + b)
                 \<and> (j < length pre \<longrightarrow> m < ls ! j * (dot w x_j + b))"
    if j: "j < length ls" for j
  proof -
    consider "j < length pre" | "j = length pre" | "length pre < j" by linarith
    then show ?thesis
    proof cases
      case 1
      then have "ls ! j \<in> set pre" by (simp add: h(1) nth_append)
      with h(3) obtain c' where c': "candidate p w b (ls ! j) = Inr c'" "m < fst c'" by blast
      then show ?thesis by (cases c') (auto simp: candidate_parts)
    next
      case 2
      then have "ls ! j = l" by (simp add: h(1))
      then show ?thesis using sel 2 by auto
    next
      case 3
      then have "ls ! j = post ! (j - Suc (length pre))" and "j - Suc (length pre) < length post"
        using j by (auto simp: h(1) nth_append nth_Cons')
      then have "ls ! j \<in> set post" by simp
      with h(4) obtain c' where c': "candidate p w b (ls ! j) = Inr c'" "m \<le> fst c'" by blast
      then show ?thesis using 3 by (cases c') (auto simp: candidate_parts)
    qed
  qed
  have "length pre < length ls" "ls ! length pre = y" using h(1) sel by simp_all
  then show ?thesis using sel each by blast
qed

text \<open>
  C5.  When the search of an iteration selects the margin \<open>m\<close>, the label \<open>y\<close> and the
  point \<open>x\<close>, then \<open>y\<close> is one of the enumerated labels, \<open>x\<close> is what the oracle returns
  for \<open>y\<close>, and \<open>m = y * (w \<cdot> x + b)\<close>; every enumerated label has a candidate, none of
  them has a margin below \<open>m\<close>, and every label enumerated before \<open>y\<close> has a margin
  strictly above \<open>m\<close>: of several labels with the minimal margin the first one is kept.
  When the enumeration is that of the distinct clean labels, \<open>y\<close> is a clean label and
  \<open>m\<close> is minimal over the candidates of all clean labels.
\<close>

theorem worst_margin_is_first_minimum:
  assumes "find_attack_point p w b = Inr (m, y, x)"
  shows "(\<exists>i < length (label_order p).
            label_order p ! i = y \<and> minimize_over_feasible_set p y w = Inr x
            \<and> m = y * (dot w x + b)
            \<and> (\<forall>j < length (label_order p). \<exists>x_j.
                  minimize_over_feasible_set p (label_order p ! j) w = Inr x_j
                  \<and> m \<le> label_order p ! j * (dot w x_j + b)
                  \<and> (j < i \<longrightarrow> m < label_order p ! j * (dot w x_j + b))))
         \<and> (label_order_ok p \<longrightarrow>
              y \<in> set (labels p)
              \<and> (\<forall>l \<in> set (labels p). \<exists>x_l.
                    minimize_over_feasible_set p l w = Inr x_l \<and> m \<le> l * (dot w x_l + b)))"
proof -
  let ?ls = "label_order p"
  from replaced_index[OF find_attack_point_replaced[OF assms]]
  obtain i where i: "i < length ?ls" "?ls ! i = y" "minimize_over_feasible_set p y w = Inr x"
      "m = y * (dot w x + b)"
      "\<forall>j < length ?ls. \<exists>x_j. minimize_over_feasible_set p (?ls ! j) w = Inr x_j
          \<and> m \<le> ?ls ! j * (dot w x_j + b) \<and> (j < i \<longrightarrow> m < ?ls ! j * (dot w x_j + b))"
    by blast
  have first: "\<exists>i < length ?ls.
            ?ls ! i = y \<and> minimize_over_feasible_set p y w = Inr x \<and> m = y * (dot w x + b)
            \<and> (\<forall>j < length ?ls. \<exists>x_j.
                  minimize_over_feasible_set p (?ls ! j) w = Inr x_j
                  \<and> m \<le> ?ls ! j * (dot w x_j + b)
                  \<and> (j < i \<longrightarrow> m < ?ls ! j * (dot w x_j + b)))"
    using i by blast
  have second: "y \<in> set (labels p)
       \<and> (\<forall>l \<in> set (labels p). \<exists>x_l.
             minimize_over_feasible_set p l w = Inr x_l \<and> m \<le> l * (dot w x_l + b))"
    if ok: "label_order_ok p"
  proof
    have "y \<in> set ?ls" using i(1,2) nth_mem by blast
    then show "y \<in> set (labels p)" using ok by (simp add: label_order_ok_def)
    show "\<forall>l \<in> set (labels p). \<exists>x_l.
             minimize_over_feasible_set p l w = Inr x_l \<and> m \<le> l * (dot w x_l + b)"
    proof
      fix l assume "l \<in> set (labels p)"
      then have "l \<in> set ?ls" using ok by (simp add: label_order_ok_def)
      then obtain j where "j < length ?ls" "?ls ! j = l" by (auto simp: in_set_conv_nth)
      with i(5) show "\<exists>x_l. minimize_over_feasible_set p l w = Inr x_l \<and> m \<le> l * (dot w x_l + b)"
        by blast
    qed
  qed
  from first second show ?thesis by blast
qed

lemma toy_attack0: "find_attack_point (toy n) [0] 0 = Inr (0, 1, [- 3])"
  by (simp add: find_attack_point_def toy_def minimize_over_feasible_set_def toy_solve_def
        array_defs)

lemma toy_label_order_ok: "label_order_ok (toy n)"
  by (simp add: label_order_ok_def toy_def)

theorem worst_margin_is_first_minimum_witness:
  "find_attack_point (toy 2) [0] 0 = Inr (0, 1, [- 3])
   \<and> candidate (toy 2) [0] 0 (- 1) = Inr (0, - 1, [- 1])
   \<and> label_order_ok (toy 2)
   \<and> (\<exists>i < length (label_order (toy 2)).
         label_order (toy 2) ! i = 1 \<and> minimize_over_feasible_set (toy 2) 1 [0] = Inr [- 3]
         \<and> (\<forall>j < length (label_order (toy 2)). \<exists>x_j.
               minimize_over_feasible_set (toy 2) (label_order (toy 2) ! j) [0] = Inr x_j
               \<and> 0 \<le> label_order (toy 2) ! j * (dot [0] x_j + 0)
               \<and> (j < i \<longrightarrow> 0 < label_order (toy 2) ! j * (dot [0] x_j + 0))))
   \<and> 1 \<in> set (labels (toy 2))"
proof -
  have c: "candidate (toy 2) [0] 0 (- 1) = Inr (0, - 1, [- 1])"
    by (simp add: candidate_def toy_def minimize_over_feasible_set_def toy_solve_def array_defs)
  from worst_margin_is_first_minimum[OF toy_attack0[of 2]] toy_label_order_ok[of 2] c
    toy_attack0[of 2]
  show ?thesis by blast
qed

section \<open>The loops, iteration by iteration\<close>

lemma upt_split3: "t < u \<Longrightarrow> [0..<u] = [0..<t] @ t # [Suc t..<u]"
proof -
  assume t: "t < u"
  then have "[0..<u] = [0..<t] @ [t..<u]"
    using upt_add_eq_append[of 0 t "u - t"] by simp
  also have "[t..<u] = t # [Suc t..<u]" using t by (simp add: upt_conv_Cons)
  finally show ?thesis .
qed

lemma upt_split2: "u \<le> n \<Longrightarrow> [0..<n] = [0..<u] @ [u..<n]"
  using upt_add_eq_append[of 0 u "n - u"] by simp

lemma cert_rda_loop_append:
  "cert_rda_loop p epsilon (ts @ us) s self =
     (case cert_rda_loop p epsilon ts s self of
        (Inl e, self') \<Rightarrow> (Inl e, self')
      | (Inr s', self') \<Rightarrow> cert_rda_loop p epsilon us s' self')"
  by (induction ts arbitrary: s self) (auto split: prod.splits sum.splits)

lemma cert_rda_loop_snoc:
  "cert_rda_loop p epsilon (ts @ [t]) s self =
     (case cert_rda_loop p epsilon ts s self of
        (Inl e, self') \<Rightarrow> (Inl e, self')
      | (Inr s', self') \<Rightarrow> cert_rda_iter p epsilon t s' self')"
  by (simp add: cert_rda_loop_append split: prod.splits sum.splits)

lemma legacy_loop_append:
  "legacy_loop p epsilon (ts @ us) st =
     (case legacy_loop p epsilon ts st of
        Inl e \<Rightarrow> Inl e
      | Inr st' \<Rightarrow> legacy_loop p epsilon us st')"
  by (induction ts arbitrary: st) (auto split: sum.splits)

lemma legacy_loop_snoc:
  "legacy_loop p epsilon (ts @ [t]) st =
     (case legacy_loop p epsilon ts st of
        Inl e \<Rightarrow> Inl e
      | Inr st' \<Rightarrow> legacy_iter p epsilon t st')"
  by (simp add: legacy_loop_append split: sum.splits)

lemma cert_rda_iter_Inr:
  assumes "cert_rda_iter p epsilon t s self = (Inr s', self')"
  obtains it where "measure_iterate p epsilon (theta_w s) (theta_b s) = Inr it"
    and "s' = rda_update p it (store_attack t it s)"
    and "self' = (if local_best s > it_total_loss it then record_best it self else self)"
  using assms by (auto simp: cert_rda_iter_def split: sum.splits)

lemma legacy_iter_Inr:
  assumes "legacy_iter p epsilon t (s, best) = Inr (s', best')"
  obtains it where "measure_iterate (legacy_pipeline p) epsilon (theta_w s) (theta_b s) = Inr it"
    and "local_best s > it_total_loss it \<Longrightarrow>
           s' = rda_update p it (store_attack t it (s\<lparr>local_best := it_total_loss it\<rparr>))
           \<and> best' = Some (assign_best it)"
    and "\<not> local_best s > it_total_loss it \<Longrightarrow>
           s' = rda_update p it (store_attack t it s) \<and> best' = best"
  using assms by (auto simp: legacy_iter_def split: sum.splits if_splits)

section \<open>The dual-averaging update\<close>

lemma rda_update_lambda: "current_lambda s \<le> current_lambda (rda_update p it s)"
  by (simp add: rda_update_def Let_def)

lemma rda_update_model:
  "theta_w (rda_update p it s)
     = vdiv (sum_of_grads_w (rda_update p it s)) (current_lambda (rda_update p it s))"
  "theta_b (rda_update p it s)
     = sum_of_grads_b (rda_update p it s) / current_lambda (rda_update p it s)"
  by (simp_all add: rda_update_def Let_def)

lemma store_attack_lambda [simp]: "current_lambda (store_attack t it s) = current_lambda s"
  by (simp add: store_attack_def)

lemma cert_rda_iter_ratchet:
  assumes "cert_rda_iter p epsilon t s self = (Inr s', self')"
  shows "current_lambda s \<le> current_lambda s'
       \<and> theta_w s' = vdiv (sum_of_grads_w s') (current_lambda s')
       \<and> theta_b s' = sum_of_grads_b s' / current_lambda s'"
proof -
  from assms obtain it where s': "s' = rda_update p it (store_attack t it s)"
    by (rule cert_rda_iter_Inr)
  have "current_lambda (store_attack t it s) \<le> current_lambda s'"
    unfolding s' by (rule rda_update_lambda)
  then show ?thesis unfolding s' using rda_update_model[of p it "store_attack t it s"] by simp
qed

lemma legacy_iter_ratchet:
  assumes "legacy_iter p epsilon t (s, best) = Inr (s', best')"
  shows "current_lambda s \<le> current_lambda s'
       \<and> theta_w s' = vdiv (sum_of_grads_w s') (current_lambda s')
       \<and> theta_b s' = sum_of_grads_b s' / current_lambda s'"
proof -
  from assms obtain it s1 where s': "s' = rda_update p it (store_attack t it s1)"
    and s1: "current_lambda s1 = current_lambda s"
    by (auto simp: legacy_iter_def split: sum.splits if_splits)
  have "current_lambda (store_attack t it s1) \<le> current_lambda s'"
    unfolding s' by (rule rda_update_lambda)
  then show ?thesis
    unfolding s' using rda_update_model[of p it "store_attack t it s1"] s1 by simp
qed

text \<open>
  C3.  A run starts with \<open>current_lambda = 1 / learning_rate\<close>.  Whenever iteration \<open>t\<close>
  of a run completes, in \<^verbatim>\<open>cert_rda\<close> as in \<^verbatim>\<open>generate_upper_and_lower_bounds\<close>, the
  iterations before it have completed, \<open>current_lambda\<close> after iteration \<open>t\<close> is at
  least what it was before it, and the model after the update is
  \<open>w = sum_of_grads_w / current_lambda\<close> and \<open>b = sum_of_grads_b / current_lambda\<close>.
\<close>

theorem lambda_ratchet_and_model:
  assumes "init_locals p = Inr s0"
  shows "current_lambda s0 = 1 / learning_rate p
       \<and> (\<forall>t s' self'.
            cert_rda_loop p epsilon [0..<Suc t] s0 self = (Inr s', self') \<longrightarrow>
            (\<exists>s self_t.
               cert_rda_loop p epsilon [0..<t] s0 self = (Inr s, self_t)
               \<and> current_lambda s \<le> current_lambda s'
               \<and> theta_w s' = vdiv (sum_of_grads_w s') (current_lambda s')
               \<and> theta_b s' = sum_of_grads_b s' / current_lambda s'))
       \<and> (\<forall>t s' best'.
            legacy_loop p epsilon [0..<Suc t] (s0, None) = Inr (s', best') \<longrightarrow>
            (\<exists>s best.
               legacy_loop p epsilon [0..<t] (s0, None) = Inr (s, best)
               \<and> current_lambda s \<le> current_lambda s'
               \<and> theta_w s' = vdiv (sum_of_grads_w s') (current_lambda s')
               \<and> theta_b s' = sum_of_grads_b s' / current_lambda s'))"
proof (intro conjI allI impI)
  show "current_lambda s0 = 1 / learning_rate p"
    using assms by (auto simp: init_locals_def split: if_splits)
next
  fix t s' self'
  assume run: "cert_rda_loop p epsilon [0..<Suc t] s0 self = (Inr s', self')"
  obtain r self_t where pre: "cert_rda_loop p epsilon [0..<t] s0 self = (r, self_t)"
    by (cases "cert_rda_loop p epsilon [0..<t] s0 self")
  from run pre obtain s where r: "r = Inr s"
    and step: "cert_rda_iter p epsilon t s self_t = (Inr s', self')"
    by (cases r) (auto simp: cert_rda_loop_snoc)
  from cert_rda_iter_ratchet[OF step] pre r
  show "\<exists>s self_t.
          cert_rda_loop p epsilon [0..<t] s0 self = (Inr s, self_t)
          \<and> current_lambda s \<le> current_lambda s'
          \<and> theta_w s' = vdiv (sum_of_grads_w s') (current_lambda s')
          \<and> theta_b s' = sum_of_grads_b s' / current_lambda s'"
    by blast
next
  fix t s' best'
  assume run: "legacy_loop p epsilon [0..<Suc t] (s0, None) = Inr (s', best')"
  then obtain s best where pre: "legacy_loop p epsilon [0..<t] (s0, None) = Inr (s, best)"
    and step: "legacy_iter p epsilon t (s, best) = Inr (s', best')"
    by (cases "legacy_loop p epsilon [0..<t] (s0, None)") (auto simp: legacy_loop_snoc)
  from legacy_iter_ratchet[OF step] pre
  show "\<exists>s best.
          legacy_loop p epsilon [0..<t] (s0, None) = Inr (s, best)
          \<and> current_lambda s \<le> current_lambda s'
          \<and> theta_w s' = vdiv (sum_of_grads_w s') (current_lambda s')
          \<and> theta_b s' = sum_of_grads_b s' / current_lambda s'"
    by blast
qed

section \<open>The worked example, evaluated\<close>

lemma linalg_norm_sq: "(linalg_norm v)\<^sup>2 = sum_list (map (\<lambda>z. z\<^sup>2) v)"
proof -
  have "0 \<le> sum_list (map (\<lambda>z. z\<^sup>2) v)" by (rule sum_list_nonneg) auto
  then show ?thesis by (simp add: linalg_norm_def)
qed

lemma ratchet_test:
  assumes "0 \<le> lam" and "0 < c" and "0 \<le> a"
  shows "lam < sqrt a / sqrt c \<longleftrightarrow> lam\<^sup>2 * c < a"
proof -
  have "sqrt a / sqrt c = sqrt (a / c)" by (simp add: real_sqrt_divide)
  moreover have "lam < sqrt (a / c) \<longleftrightarrow> lam\<^sup>2 < a / c"
    using assms by (metis real_sqrt_less_iff real_sqrt_abs abs_of_nonneg)
  moreover have "lam\<^sup>2 < a / c \<longleftrightarrow> lam\<^sup>2 * c < a"
    using assms(2) by (simp add: pos_less_divide_eq)
  ultimately show ?thesis by simp
qed

text \<open>The update when the candidate does not exceed \<open>current_lambda\<close>.\<close>

lemma rda_update_no_ratchet:
  assumes "0 \<le> current_lambda s" and "0 < norm_sq_constraint p"
    and "sw = vsub (sum_of_grads_w s) (it_grad_w it)"
    and "sb = sum_of_grads_b s - it_grad_b it"
    and "sum_list (map (\<lambda>z. z\<^sup>2) sw) + sb\<^sup>2 \<le> (current_lambda s)\<^sup>2 * norm_sq_constraint p"
  shows "rda_update p it s =
           s\<lparr>sum_of_grads_w := sw, sum_of_grads_b := sb,
             theta_w := vdiv sw (current_lambda s), theta_b := sb / current_lambda s\<rparr>"
proof -
  have nn: "0 \<le> sum_list (map (\<lambda>z. z\<^sup>2) sw) + sb\<^sup>2"
    by (intro add_nonneg_nonneg sum_list_nonneg) auto
  have "\<not> current_lambda s < sqrt ((linalg_norm sw)\<^sup>2 + sb\<^sup>2) / sqrt (norm_sq_constraint p)"
    using assms(5) nn by (simp add: linalg_norm_sq ratchet_test[OF assms(1,2)])
  then show ?thesis
    by (simp add: rda_update_def Let_def assms(3,4)[symmetric])
qed

lemma toy_init: "init_locals (toy n) = Inr (toy_s0 n)"
  by (simp add: init_locals_def toy_def shape1_def toy_s0_def)

lemma toy_flaky_init: "init_locals (toy_flaky n) = Inr (toy_s0 n)"
  by (simp add: init_locals_def toy_flaky_def toy_def shape1_def toy_s0_def)

lemma toy_measure0: "measure_iterate (toy n) (1 / 2) [0] 0 = Inr toy_it0"
  by (simp add: measure_iterate_def toy_attack0 fold_attack_def good_acc_def toy_it0_def)
     (simp add: toy_def array_defs Let_def)


lemma toy_attack1: "find_attack_point (toy n) [- 1 / 4] (1 / 4) = Inr (- 1 / 2, - 1, [- 1])"
  by (simp add: find_attack_point_def toy_def minimize_over_feasible_set_def toy_solve_def
        array_defs)

lemma toy_measure1: "measure_iterate (toy n) (1 / 2) [- 1 / 4] (1 / 4) = Inr toy_it1"
  unfolding measure_iterate_def toy_attack1
  by (simp add: fold_attack_def good_acc_def toy_it1_def toy_def array_defs Let_def
        power2_eq_square)

lemma toy_legacy_pipeline: "legacy_pipeline (toy n) = toy n"
  by (simp add: legacy_pipeline_def toy_def)

lemma toy_next0:
  assumes "sum_of_grads_w s = [0]" and "sum_of_grads_b s = 0" and "current_lambda s = 2"
  shows "rda_update (toy n) toy_it0 (store_attack t toy_it0 s) =
           s\<lparr>x_bs := (x_bs s)[t := [- 3]], y_bs := (y_bs s)[t := 1],
             sum_of_grads_w := [- 1 / 2], sum_of_grads_b := 1 / 2,
             theta_w := [- 1 / 4], theta_b := 1 / 4\<rparr>"
  by (subst rda_update_no_ratchet[OF _ _ refl refl])
     (simp_all add: assms toy_def toy_it0_def store_attack_def array_defs power2_eq_square)

lemma toy_next1:
  assumes "sum_of_grads_w s = [- 1 / 2]" and "sum_of_grads_b s = 1 / 2"
    and "current_lambda s = 2"
  shows "rda_update (toy n) toy_it1 (store_attack t toy_it1 s) =
           s\<lparr>x_bs := (x_bs s)[t := [- 1]], y_bs := (y_bs s)[t := - 1],
             sum_of_grads_w := [1], sum_of_grads_b := 0,
             theta_w := [1 / 2], theta_b := 0\<rparr>"
  by (subst rda_update_no_ratchet[OF _ _ refl refl])
     (simp_all add: assms toy_def toy_it1_def store_attack_def array_defs power2_eq_square)

lemma toy_next0z:
  assumes "sum_of_grads_w s = [0]" and "sum_of_grads_b s = 0" and "current_lambda s = 2"
  shows "rda_update (toy n) toy_it0z (store_attack t toy_it0z s) =
           s\<lparr>x_bs := (x_bs s)[t := [- 3]], y_bs := (y_bs s)[t := 1],
             sum_of_grads_w := [1], sum_of_grads_b := 0,
             theta_w := [1 / 2], theta_b := 0\<rparr>"
  by (subst rda_update_no_ratchet[OF _ _ refl refl])
     (simp_all add: assms toy_def toy_it0z_def store_attack_def array_defs power2_eq_square)

text \<open>Two iterations of \<^verbatim>\<open>cert_rda\<close> on the example with \<open>epsilon = 1/2\<close>: the total
  losses are \<open>3/2\<close> and then \<open>2\<close>, and both are below the local \<open>10000\<close>.\<close>

lemma toy_iter0:
  "cert_rda_iter (toy n) (1 / 2) 0 (toy_s0 n) self =
     (Inr ((toy_s0 n)\<lparr>x_bs := (replicate n [0])[0 := [- 3]], y_bs := (replicate n 0)[0 := 1],
             sum_of_grads_w := [- 1 / 2], sum_of_grads_b := 1 / 2,
             theta_w := [- 1 / 4], theta_b := 1 / 4\<rparr>),
      record_best toy_it0 self)"
proof -
  have m: "measure_iterate (toy n) (1 / 2) (theta_w (toy_s0 n)) (theta_b (toy_s0 n)) = Inr toy_it0"
    using toy_measure0 by (simp add: toy_s0_def)
  have u: "rda_update (toy n) toy_it0 (store_attack 0 toy_it0 (toy_s0 n)) =
     (toy_s0 n)\<lparr>x_bs := (replicate n [0])[0 := [- 3]], y_bs := (replicate n 0)[0 := 1],
             sum_of_grads_w := [- 1 / 2], sum_of_grads_b := 1 / 2,
             theta_w := [- 1 / 4], theta_b := 1 / 4\<rparr>"
    by (subst toy_next0) (simp_all add: toy_s0_def)
  show ?thesis
    by (simp add: cert_rda_iter_def m u) (simp add: toy_s0_def toy_it0_def)
qed

lemma toy_iter1:
  assumes "theta_w s = [- 1 / 4]" and "theta_b s = 1 / 4"
    and "sum_of_grads_w s = [- 1 / 2]" and "sum_of_grads_b s = 1 / 2"
    and "current_lambda s = 2" and "local_best s = 10000"
  shows "cert_rda_iter (toy n) (1 / 2) t s self =
     (Inr (s\<lparr>x_bs := (x_bs s)[t := [- 1]], y_bs := (y_bs s)[t := - 1],
             sum_of_grads_w := [1], sum_of_grads_b := 0,
             theta_w := [1 / 2], theta_b := 0\<rparr>),
      record_best toy_it1 self)"
proof -
  have m: "measure_iterate (toy n) (1 / 2) (theta_w s) (theta_b s) = Inr toy_it1"
    using toy_measure1 by (simp add: assms)
  have u: "rda_update (toy n) toy_it1 (store_attack t toy_it1 s) =
           s\<lparr>x_bs := (x_bs s)[t := [- 1]], y_bs := (y_bs s)[t := - 1],
             sum_of_grads_w := [1], sum_of_grads_b := 0,
             theta_w := [1 / 2], theta_b := 0\<rparr>"
    by (rule toy_next1) (simp_all add: assms)
  have g: "local_best s > it_total_loss toy_it1"
    by (simp add: assms toy_it1_def)
  show ?thesis
    unfolding cert_rda_iter_def m by (simp add: u g)
qed

lemma toy_loop1:
  "cert_rda_loop (toy n) (1 / 2) [0..<1] (toy_s0 n) self =
     (Inr ((toy_s0 n)\<lparr>x_bs := (replicate n [0])[0 := [- 3]], y_bs := (replicate n 0)[0 := 1],
             sum_of_grads_w := [- 1 / 2], sum_of_grads_b := 1 / 2,
             theta_w := [- 1 / 4], theta_b := 1 / 4\<rparr>),
      record_best toy_it0 self)"
  by (simp add: toy_iter0)

lemma toy_loop2:
  "cert_rda_loop (toy n) (1 / 2) [0..<2] (toy_s0 n) self =
     (Inr ((toy_s0 n)\<lparr>x_bs := (replicate n [0])[0 := [- 3], 1 := [- 1]],
             y_bs := (replicate n 0)[0 := 1, 1 := - 1],
             sum_of_grads_w := [1], sum_of_grads_b := 0,
             theta_w := [1 / 2], theta_b := 0\<rparr>),
      record_best toy_it1 (record_best toy_it0 self))"
proof -
  have "[0..<2] = [0, Suc 0]" by (simp add: upt_rec)
  then show ?thesis
    by (simp add: toy_iter0) (subst toy_iter1, simp_all add: toy_s0_def)
qed

lemma toy_cert_rda:
  "cert_rda (toy 2) (1 / 2) fresh_upper_bound =
     (Inr (Some 2, Some 0, Some (3 / 2)),
      \<lparr>x_c = Some [[- 3], [- 1]], y_c = Some [1, - 1],
       best_upper_bound = Some 2, best_upper_good_loss = Some (5 / 4),
       best_upper_bad_loss = Some (3 / 2), best_upper_params_norm_sq = Some (1 / 8),
       best_upper_good_acc = Some 0, best_upper_bad_acc = Some 0\<rparr>)"
proof -
  have n: "max_iter (toy 2) = 2" by (simp add: toy_def)
  have loop: "cert_rda_loop (toy 2) (1 / 2) [0..<max_iter (toy 2)] (toy_s0 2) fresh_upper_bound =
     (Inr ((toy_s0 2)\<lparr>x_bs := (replicate 2 [0])[0 := [- 3], 1 := [- 1]],
             y_bs := (replicate 2 0)[0 := 1, 1 := - 1],
             sum_of_grads_w := [1], sum_of_grads_b := 0,
             theta_w := [1 / 2], theta_b := 0\<rparr>),
      record_best toy_it1 (record_best toy_it0 fresh_upper_bound))"
    unfolding n by (rule toy_loop2)
  have tr: "(replicate 2 [0::real])[0 := [- 3], Suc 0 := [- 1]] = [[- 3], [- 1]]"
    "(replicate 2 (0::real))[0 := 1, Suc 0 := - 1] = [1, - 1]"
    by (simp_all add: eval_nat_numeral)
  show ?thesis
    by (simp add: cert_rda_def toy_init loop tr)
       (simp add: record_best_def toy_it1_def toy_it0_def fresh_upper_bound_def bad_acc_def)
qed

text \<open>The same two iterations in \<^verbatim>\<open>generate_upper_and_lower_bounds\<close>: the local
  \<^verbatim>\<open>best_upper_bound\<close> drops to \<open>3/2\<close> in the first and stays there in the second.\<close>

lemma toy_legacy_iter0:
  "legacy_iter (toy n) (1 / 2) 0 (toy_s0 n, best) =
     Inr ((toy_s0 n)\<lparr>x_bs := (replicate n [0])[0 := [- 3]], y_bs := (replicate n 0)[0 := 1],
             sum_of_grads_w := [- 1 / 2], sum_of_grads_b := 1 / 2,
             theta_w := [- 1 / 4], theta_b := 1 / 4, local_best := 3 / 2\<rparr>,
          Some (assign_best toy_it0))"
proof -
  have m: "measure_iterate (legacy_pipeline (toy n)) (1 / 2) (theta_w (toy_s0 n))
             (theta_b (toy_s0 n)) = Inr toy_it0"
    using toy_measure0 by (simp add: toy_s0_def toy_legacy_pipeline)
  have g: "local_best (toy_s0 n) > it_total_loss toy_it0"
    by (simp add: toy_s0_def toy_it0_def)
  have u: "rda_update (toy n) toy_it0
             (store_attack 0 toy_it0 ((toy_s0 n)\<lparr>local_best := it_total_loss toy_it0\<rparr>)) =
     (toy_s0 n)\<lparr>x_bs := (replicate n [0])[0 := [- 3]], y_bs := (replicate n 0)[0 := 1],
             sum_of_grads_w := [- 1 / 2], sum_of_grads_b := 1 / 2,
             theta_w := [- 1 / 4], theta_b := 1 / 4, local_best := 3 / 2\<rparr>"
    by (subst toy_next0) (simp_all add: toy_s0_def toy_it0_def)
  show ?thesis
    by (simp add: legacy_iter_def m g u)
qed

lemma toy_legacy_iter1:
  assumes "theta_w s = [- 1 / 4]" and "theta_b s = 1 / 4"
    and "sum_of_grads_w s = [- 1 / 2]" and "sum_of_grads_b s = 1 / 2"
    and "current_lambda s = 2" and "local_best s = 3 / 2"
  shows "legacy_iter (toy n) (1 / 2) t (s, best) =
     Inr (s\<lparr>x_bs := (x_bs s)[t := [- 1]], y_bs := (y_bs s)[t := - 1],
             sum_of_grads_w := [1], sum_of_grads_b := 0,
             theta_w := [1 / 2], theta_b := 0\<rparr>, best)"
proof -
  have m: "measure_iterate (legacy_pipeline (toy n)) (1 / 2) (theta_w s) (theta_b s)
             = Inr toy_it1"
    using toy_measure1 by (simp add: assms toy_legacy_pipeline)
  have u: "rda_update (toy n) toy_it1 (store_attack t toy_it1 s) =
           s\<lparr>x_bs := (x_bs s)[t := [- 1]], y_bs := (y_bs s)[t := - 1],
             sum_of_grads_w := [1], sum_of_grads_b := 0,
             theta_w := [1 / 2], theta_b := 0\<rparr>"
    by (rule toy_next1) (simp_all add: assms)
  have g: "\<not> local_best s > it_total_loss toy_it1"
    by (simp add: assms toy_it1_def)
  show ?thesis
    by (simp add: legacy_iter_def m g u)
qed

lemma toy_legacy_loop1:
  "legacy_loop (toy n) (1 / 2) [0..<1] (toy_s0 n, None) =
     Inr ((toy_s0 n)\<lparr>x_bs := (replicate n [0])[0 := [- 3]], y_bs := (replicate n 0)[0 := 1],
             sum_of_grads_w := [- 1 / 2], sum_of_grads_b := 1 / 2,
             theta_w := [- 1 / 4], theta_b := 1 / 4, local_best := 3 / 2\<rparr>,
          Some (assign_best toy_it0))"
  by (simp add: toy_legacy_iter0)

lemma toy_legacy_loop2:
  "legacy_loop (toy n) (1 / 2) [0..<2] (toy_s0 n, None) =
     Inr ((toy_s0 n)\<lparr>x_bs := (replicate n [0])[0 := [- 3], 1 := [- 1]],
             y_bs := (replicate n 0)[0 := 1, 1 := - 1],
             sum_of_grads_w := [1], sum_of_grads_b := 0,
             theta_w := [1 / 2], theta_b := 0, local_best := 3 / 2\<rparr>,
          Some (assign_best toy_it0))"
proof -
  have "[0..<2] = [0, Suc 0]" by (simp add: upt_rec)
  then show ?thesis
    by (simp add: toy_legacy_iter0) (subst toy_legacy_iter1, simp_all add: toy_s0_def)
qed

theorem lambda_ratchet_and_model_witness:
  "init_locals (toy 2) = Inr (toy_s0 2)
   \<and> current_lambda (toy_s0 2) = 1 / learning_rate (toy 2)
   \<and> (\<exists>s' self'.
         cert_rda_loop (toy 2) (1 / 2) [0..<Suc 1] (toy_s0 2) fresh_upper_bound = (Inr s', self')
         \<and> theta_w s' = [1 / 2] \<and> sum_of_grads_w s' = [1] \<and> current_lambda s' = 2
         \<and> (\<exists>s self_t.
               cert_rda_loop (toy 2) (1 / 2) [0..<1] (toy_s0 2) fresh_upper_bound = (Inr s, self_t)
               \<and> current_lambda s \<le> current_lambda s'
               \<and> theta_w s' = vdiv (sum_of_grads_w s') (current_lambda s')
               \<and> theta_b s' = sum_of_grads_b s' / current_lambda s'))
   \<and> (\<exists>s' best'.
         legacy_loop (toy 2) (1 / 2) [0..<Suc 1] (toy_s0 2, None) = Inr (s', best')
         \<and> theta_w s' = [1 / 2] \<and> sum_of_grads_w s' = [1] \<and> current_lambda s' = 2
         \<and> (\<exists>s best.
               legacy_loop (toy 2) (1 / 2) [0..<1] (toy_s0 2, None) = Inr (s, best)
               \<and> current_lambda s \<le> current_lambda s'
               \<and> theta_w s' = vdiv (sum_of_grads_w s') (current_lambda s')
               \<and> theta_b s' = sum_of_grads_b s' / current_lambda s'))"
proof -
  have "Suc 1 = 2" by simp
  then have e: "[0..<Suc 1] = [0..<2]" by (rule arg_cong)
  have c: "\<exists>s' self'.
         cert_rda_loop (toy 2) (1 / 2) [0..<Suc 1] (toy_s0 2) fresh_upper_bound = (Inr s', self')
         \<and> theta_w s' = [1 / 2] \<and> sum_of_grads_w s' = [1] \<and> current_lambda s' = 2"
    unfolding e toy_loop2 by (simp add: toy_s0_def)
  have l: "\<exists>s' best'.
         legacy_loop (toy 2) (1 / 2) [0..<Suc 1] (toy_s0 2, None) = Inr (s', best')
         \<and> theta_w s' = [1 / 2] \<and> sum_of_grads_w s' = [1] \<and> current_lambda s' = 2"
    unfolding e toy_legacy_loop2 by (simp add: toy_s0_def)
  from lambda_ratchet_and_model[OF toy_init[of 2], of "1 / 2" fresh_upper_bound] c l toy_init[of 2]
  show ?thesis by blast
qed

section \<open>The double product that is rounded to the sample size\<close>

lemma float_round_binade:
  assumes "2 powr of_int e \<le> \<bar>x\<bar>" and "\<bar>x\<bar> < 2 powr of_int (e + 1)"
  shows "float_round x = of_int (np_round (x / 2 powr (of_int e - 52))) * 2 powr (of_int e - 52)"
proof -
  have pos: "0 < \<bar>x\<bar>" using assms(1) by (smt (verit) powr_gt_zero)
  have "\<lfloor>log 2 \<bar>x\<bar>\<rfloor> = e"
    using assms pos by (simp add: floor_log_eq_powr_iff)
  moreover have "x \<noteq> 0" using pos by simp
  ultimately show ?thesis by (simp add: float_round_def Let_def)
qed

lemma np_round_of_int: "np_round (of_int m) = m"
  by (simp add: np_round_def Let_def)


lemma float_round_one: "float_round 1 = 1"
proof -
  have "(1::real) / (1 / 2 ^ 52) = of_int (2 ^ 52)" by simp
  then have "np_round (1 / (1 / 2 ^ 52)) = 2 ^ 52" by (simp only: np_round_of_int)
  then show ?thesis
    using float_round_binade[of 0 1] by (simp add: powr_neg_numeral)
qed

lemma float_round_two: "float_round 2 = 2"
proof -
  have "(2::real) / (1 / 2 ^ 51) = of_int (2 ^ 52)" by simp
  then have "np_round (2 / (1 / 2 ^ 51)) = 2 ^ 52" by (simp only: np_round_of_int)
  then show ?thesis
    using float_round_binade[of 1 2] by (simp add: powr_neg_numeral)
qed

lemma float_round_two_63: "float_round (2 ^ 63) = 2 ^ 63"
proof -
  have "(2::real) ^ 63 / 2 ^ 11 = of_int (2 ^ 52)" by simp
  then have "np_round (2 ^ 63 / 2 ^ 11) = 2 ^ 52" by (simp only: np_round_of_int)
  then show ?thesis
    using float_round_binade[of 63 "2 ^ 63"] by (simp add: powr_numeral)
qed

text \<open>
  Three products at which rounding the exact product of the two doubles and rounding
  their double product differ.  The doubles nearest to \<open>0.7\<close>, \<open>0.1\<close> and \<open>0.3\<close> are
  \<open>3152519739159347 / 2 ^ 52\<close>, \<open>3602879701896397 / 2 ^ 55\<close> and
  \<open>5404319552844595 / 2 ^ 54\<close>: \<^verbatim>\<open>int(np.round(0.7 * 45))\<close> is 31,
  \<^verbatim>\<open>int(np.round(0.1 * 5))\<close> is 0 and \<^verbatim>\<open>int(np.round(0.3 * 5))\<close> is 2.
\<close>

lemma sample_size_07_45: "np_round (float_mul (3152519739159347 / 2 ^ 52) (real 45)) = 31"
proof -
  have r: "np_round (3152519739159347 / 2 ^ 52 * 45 / (1 / 2 ^ 48)) = 8866461766385663"
    by (simp add: np_round_def Let_def)
  have f: "float_round (3152519739159347 / 2 ^ 52 * 45) = 8866461766385663 / 2 ^ 48"
    using float_round_binade[of 4 "3152519739159347 / 2 ^ 52 * 45"] r
    by (simp add: powr_neg_numeral)
  show ?thesis unfolding float_mul_def of_nat_numeral f by (simp add: np_round_def Let_def)
qed

lemma sample_size_01_5: "np_round (float_mul (3602879701896397 / 2 ^ 55) (real 5)) = 0"
proof -
  have r: "np_round (3602879701896397 / 2 ^ 55 * 5 / (1 / 2 ^ 53)) = 2 ^ 52"
    by (simp add: np_round_def Let_def)
  have f: "float_round (3602879701896397 / 2 ^ 55 * 5) = 1 / 2"
    using float_round_binade[of "- 1" "3602879701896397 / 2 ^ 55 * 5"] r
    by (simp add: powr_neg_numeral)
  show ?thesis unfolding float_mul_def of_nat_numeral f by (simp add: np_round_def Let_def)
qed

lemma sample_size_03_5: "np_round (float_mul (5404319552844595 / 2 ^ 54) (real 5)) = 2"
proof -
  have r: "np_round (5404319552844595 / 2 ^ 54 * 5 / (1 / 2 ^ 52)) = 6755399441055744"
    by (simp add: np_round_def Let_def)
  have f: "float_round (5404319552844595 / 2 ^ 54 * 5) = 3 / 2"
    using float_round_binade[of 0 "5404319552844595 / 2 ^ 54 * 5"] r
    by (simp add: powr_neg_numeral)
  show ?thesis unfolding float_mul_def of_nat_numeral f by (simp add: np_round_def Let_def)
qed

text \<open>The sample sizes of the worked examples: half of two points, all of two points,
  none of them.\<close>

lemma sample_size_half: "np_round (float_mul (1 / 2) (real (length [[1::real], [- 1]]))) = 1"
  by (simp add: float_mul_def float_round_one np_round_def Let_def)

lemma sample_size_all: "np_round (float_mul 1 (real (length [[1::real], [- 1]]))) = 2"
  by (simp add: float_mul_def float_round_two np_round_def Let_def)


section \<open>The best bound\<close>

lemma rda_update_frame [simp]:
  "x_bs (rda_update p it s) = x_bs s"
  "y_bs (rda_update p it s) = y_bs s"
  "local_best (rda_update p it s) = local_best s"
  by (simp_all add: rda_update_def Let_def)

lemma store_attack_frame [simp]:
  "local_best (store_attack t it s) = local_best s"
  "theta_w (store_attack t it s) = theta_w s"
  "theta_b (store_attack t it s) = theta_b s"
  "sum_of_grads_w (store_attack t it s) = sum_of_grads_w s"
  "sum_of_grads_b (store_attack t it s) = sum_of_grads_b s"
  by (simp_all add: store_attack_def)

lemma rda_update_cong:
  "norm_sq_constraint p = norm_sq_constraint q \<Longrightarrow> rda_update p it s = rda_update q it s"
  by (simp add: rda_update_def)

text \<open>In \<^verbatim>\<open>generate_upper_and_lower_bounds\<close> the local \<^verbatim>\<open>best_upper_bound\<close> never rises,
  is at most the total loss of the iteration just run, and changes only to a total loss
  strictly below its old value.\<close>

lemma legacy_iter_best:
  assumes "legacy_iter p epsilon t (s, best) = Inr (s', best')"
  shows "\<exists>it. measure_iterate (legacy_pipeline p) epsilon (theta_w s) (theta_b s) = Inr it
           \<and> local_best s' \<le> local_best s
           \<and> local_best s' \<le> it_total_loss it
           \<and> (local_best s' = local_best s \<and> best' = best
               \<or> it_total_loss it < local_best s \<and> local_best s' = it_total_loss it
                  \<and> best' = Some (assign_best it))"
  using assms by (auto simp: legacy_iter_def split: sum.splits if_splits)

lemma legacy_loop_best_le:
  "legacy_loop p epsilon ts (s, best) = Inr (s', best') \<Longrightarrow> local_best s' \<le> local_best s"
proof (induction ts arbitrary: s best)
  case Nil
  then show ?case by simp
next
  case (Cons t ts)
  from Cons.prems obtain s1 best1 where step: "legacy_iter p epsilon t (s, best) = Inr (s1, best1)"
    and rest: "legacy_loop p epsilon ts (s1, best1) = Inr (s', best')"
    by (cases "legacy_iter p epsilon t (s, best)") auto
  from legacy_iter_best[OF step] have "local_best s1 \<le> local_best s" by blast
  with Cons.IH[OF rest] show ?case by simp
qed

lemma toy_sample:
  "sample_lower_bound_attack choice_first [[1], [- 1]] [1, - 1] [[- 3], [- 1]] [1, - 1] (1 / 2) 0 =
     Inr \<lparr>X_modified = [[1], [- 1], [- 3]], Y_modified = [1, - 1, 1],
          idx_train = (0, 2), idx_poison = (2, 3)\<rparr>"
proof -
  have i: "idx_to_sample choice_first (length [[- 3::real], [- 1]]) (length [[1::real], [- 1]])
             (1 / 2) 0 = Inr [0]"
    unfolding idx_to_sample_def sample_size_half by (simp add: choice_first_def)
  show ?thesis
    unfolding sample_lower_bound_attack_def i by simp
qed

lemma toy_legacy_run:
  "generate_upper_and_lower_bounds choice_first (toy 2) (1 / 2) 0 =
     Inr \<lparr>lower_bound_data =
            \<lparr>X_modified = [[1], [- 1], [- 3]], Y_modified = [1, - 1, 1],
             idx_train = (0, 2), idx_poison = (2, 3)\<rparr>,
          upper_bound_total = 3 / 2,
          upper_bound_parts = assign_best toy_it0\<rparr>"
proof -
  have n: "max_iter (toy 2) = 2" by (simp add: toy_def)
  have tr: "(replicate 2 [0::real])[0 := [- 3], Suc 0 := [- 1]] = [[- 3], [- 1]]"
    "(replicate 2 (0::real))[0 := 1, Suc 0 := - 1] = [1, - 1]"
    by (simp_all add: eval_nat_numeral)
  have d: "features (toy 2) = [[1], [- 1]]" "labels (toy 2) = [1, - 1]"
    by (simp_all add: toy_def)
  have loop: "legacy_loop (toy 2) (1 / 2) [0..<max_iter (toy 2)] (toy_s0 2, None) =
     Inr ((toy_s0 2)\<lparr>x_bs := (replicate 2 [0])[0 := [- 3], 1 := [- 1]],
             y_bs := (replicate 2 0)[0 := 1, 1 := - 1],
             sum_of_grads_w := [1], sum_of_grads_b := 0,
             theta_w := [1 / 2], theta_b := 0, local_best := 3 / 2\<rparr>,
          Some (assign_best toy_it0))"
    unfolding n by (rule toy_legacy_loop2)
  show ?thesis
    by (simp add: generate_upper_and_lower_bounds_def toy_init loop d tr toy_sample)
qed

text \<open>
  C1.  On the example with \<open>epsilon = 1/2\<close> and two iterations, \<^verbatim>\<open>cert_rda\<close> records the
  total loss \<open>3/2\<close> in its first iteration; the second iteration computes the total loss
  \<open>2\<close>, which is not lower, and yet it overwrites the record: the run ends with the
  recorded best total loss \<open>2\<close>, good loss \<open>5/4\<close> and bad loss \<open>3/2\<close>.  On the same input
  \<^verbatim>\<open>generate_upper_and_lower_bounds\<close> returns the best total loss \<open>3/2\<close>.
\<close>

theorem cert_rda_overwrites_best_bound:
  "(\<exists>s1 self1.
      cert_rda_loop (toy 2) (1 / 2) [0..<1] (toy_s0 2) fresh_upper_bound = (Inr s1, self1)
      \<and> best_upper_bound self1 = Some (3 / 2)
      \<and> measure_iterate (toy 2) (1 / 2) (theta_w s1) (theta_b s1) = Inr toy_it1
      \<and> it_total_loss toy_it1 = 2)
   \<and> init_locals (toy 2) = Inr (toy_s0 2)
   \<and> best_upper_bound (snd (cert_rda (toy 2) (1 / 2) fresh_upper_bound)) = Some 2
   \<and> best_upper_good_loss (snd (cert_rda (toy 2) (1 / 2) fresh_upper_bound)) = Some (5 / 4)
   \<and> best_upper_bad_loss (snd (cert_rda (toy 2) (1 / 2) fresh_upper_bound)) = Some (3 / 2)
   \<and> (\<exists>res. generate_upper_and_lower_bounds choice_first (toy 2) (1 / 2) 0 = Inr res
            \<and> upper_bound_total res = 3 / 2)"
proof -
  have a: "\<exists>s1 self1.
      cert_rda_loop (toy 2) (1 / 2) [0..<1] (toy_s0 2) fresh_upper_bound = (Inr s1, self1)
      \<and> best_upper_bound self1 = Some (3 / 2)
      \<and> measure_iterate (toy 2) (1 / 2) (theta_w s1) (theta_b s1) = Inr toy_it1
      \<and> it_total_loss toy_it1 = 2"
    unfolding toy_loop1 using toy_measure1[of 2]
    by (simp add: record_best_def toy_it0_def) (simp add: toy_it1_def)
  have b: "\<exists>res. generate_upper_and_lower_bounds choice_first (toy 2) (1 / 2) 0 = Inr res
            \<and> upper_bound_total res = 3 / 2"
    unfolding toy_legacy_run by simp
  show ?thesis
    using a b toy_init[of 2] by (simp add: toy_cert_rda)
qed


section \<open>A solver failure in the middle of a run\<close>

lemma toy_flaky_attack0: "find_attack_point (toy_flaky n) [0] 0 = Inr (0, 1, [- 3])"
  by (simp add: find_attack_point_def toy_flaky_def toy_def minimize_over_feasible_set_def
        flaky_solve_def toy_solve_def array_defs)

lemma toy_flaky_measure0: "measure_iterate (toy_flaky n) (1 / 2) [0] 0 = Inr toy_it0"
  by (simp add: measure_iterate_def toy_flaky_attack0 fold_attack_def good_acc_def toy_it0_def)
     (simp add: toy_flaky_def toy_def array_defs Let_def)

lemma toy_flaky_measure1: "measure_iterate (toy_flaky n) (1 / 2) [- 1 / 4] (1 / 4) = Inl SolverError"
  by (simp add: measure_iterate_def find_attack_point_def toy_flaky_def toy_def
        minimize_over_feasible_set_def flaky_solve_def)

lemma toy_flaky_legacy_pipeline: "legacy_pipeline (toy_flaky n) = toy_flaky n"
  by (simp add: legacy_pipeline_def toy_flaky_def toy_def)

lemma toy_flaky_update: "rda_update (toy_flaky n) it s = rda_update (toy n) it s"
  by (rule rda_update_cong) (simp add: toy_flaky_def)

lemma toy_flaky_iter0:
  "cert_rda_iter (toy_flaky n) (1 / 2) 0 (toy_s0 n) self =
     (Inr ((toy_s0 n)\<lparr>x_bs := (replicate n [0])[0 := [- 3]], y_bs := (replicate n 0)[0 := 1],
             sum_of_grads_w := [- 1 / 2], sum_of_grads_b := 1 / 2,
             theta_w := [- 1 / 4], theta_b := 1 / 4\<rparr>),
      record_best toy_it0 self)"
proof -
  have m: "measure_iterate (toy_flaky n) (1 / 2) (theta_w (toy_s0 n)) (theta_b (toy_s0 n))
             = Inr toy_it0"
    using toy_flaky_measure0 by (simp add: toy_s0_def)
  have u: "rda_update (toy_flaky n) toy_it0 (store_attack 0 toy_it0 (toy_s0 n)) =
     (toy_s0 n)\<lparr>x_bs := (replicate n [0])[0 := [- 3]], y_bs := (replicate n 0)[0 := 1],
             sum_of_grads_w := [- 1 / 2], sum_of_grads_b := 1 / 2,
             theta_w := [- 1 / 4], theta_b := 1 / 4\<rparr>"
    unfolding toy_flaky_update by (subst toy_next0) (simp_all add: toy_s0_def)
  show ?thesis
    by (simp add: cert_rda_iter_def m u) (simp add: toy_s0_def toy_it0_def)
qed

lemma toy_flaky_iter1:
  assumes "theta_w s = [- 1 / 4]" and "theta_b s = 1 / 4"
  shows "cert_rda_iter (toy_flaky n) (1 / 2) t s self = (Inl SolverError, self)"
proof -
  have m: "measure_iterate (toy_flaky n) (1 / 2) (theta_w s) (theta_b s) = Inl SolverError"
    using toy_flaky_measure1 by (simp add: assms)
  show ?thesis by (simp add: cert_rda_iter_def m)
qed

lemma toy_flaky_cert_rda:
  "cert_rda (toy_flaky 2) (1 / 2) fresh_upper_bound =
     (Inl SolverError, record_best toy_it0 fresh_upper_bound)"
proof -
  have n: "max_iter (toy_flaky 2) = 2" by (simp add: toy_flaky_def toy_def)
  have l: "[0..<2] = [0, Suc 0]" by (simp add: upt_rec)
  have loop: "cert_rda_loop (toy_flaky 2) (1 / 2) [0..<max_iter (toy_flaky 2)] (toy_s0 2)
                fresh_upper_bound = (Inl SolverError, record_best toy_it0 fresh_upper_bound)"
    unfolding n l by (simp add: toy_flaky_iter0) (subst toy_flaky_iter1, simp_all)
  show ?thesis
    by (simp add: cert_rda_def toy_flaky_init loop)
qed

lemma toy_flaky_legacy_run:
  "generate_upper_and_lower_bounds choice (toy_flaky 2) (1 / 2) k = Inl SolverError"
proof -
  have n: "max_iter (toy_flaky 2) = 2" by (simp add: toy_flaky_def toy_def)
  have l: "[0..<2] = [0, Suc 0]" by (simp add: upt_rec)
  have m0: "measure_iterate (legacy_pipeline (toy_flaky 2)) (1 / 2) (theta_w (toy_s0 2))
              (theta_b (toy_s0 2)) = Inr toy_it0"
    using toy_flaky_measure0 by (simp add: toy_s0_def toy_flaky_legacy_pipeline)
  have g: "local_best (toy_s0 2) > it_total_loss toy_it0"
    by (simp add: toy_s0_def toy_it0_def)
  have u: "rda_update (toy_flaky 2) toy_it0
             (store_attack 0 toy_it0 ((toy_s0 2)\<lparr>local_best := it_total_loss toy_it0\<rparr>)) =
     (toy_s0 2)\<lparr>x_bs := (replicate 2 [0])[0 := [- 3]], y_bs := (replicate 2 0)[0 := 1],
             sum_of_grads_w := [- 1 / 2], sum_of_grads_b := 1 / 2,
             theta_w := [- 1 / 4], theta_b := 1 / 4, local_best := 3 / 2\<rparr>"
    unfolding toy_flaky_update by (subst toy_next0) (simp_all add: toy_s0_def toy_it0_def)
  have i0: "legacy_iter (toy_flaky 2) (1 / 2) 0 (toy_s0 2, None) =
     Inr ((toy_s0 2)\<lparr>x_bs := (replicate 2 [0])[0 := [- 3]], y_bs := (replicate 2 0)[0 := 1],
             sum_of_grads_w := [- 1 / 2], sum_of_grads_b := 1 / 2,
             theta_w := [- 1 / 4], theta_b := 1 / 4, local_best := 3 / 2\<rparr>,
          Some (assign_best toy_it0))"
    by (simp add: legacy_iter_def m0 g u)
  have m1: "measure_iterate (legacy_pipeline (toy_flaky 2)) (1 / 2) [- 1 / 4] (1 / 4)
              = Inl SolverError"
    using toy_flaky_measure1 by (simp add: toy_flaky_legacy_pipeline)
  have loop: "legacy_loop (toy_flaky 2) (1 / 2) [0..<max_iter (toy_flaky 2)] (toy_s0 2, None)
               = Inl SolverError"
    unfolding n l using m1 by (simp add: i0) (simp add: legacy_iter_def)
  show ?thesis
    by (simp add: generate_upper_and_lower_bounds_def toy_flaky_init loop)
qed

text \<open>
  C7.  On the example with a solver that fails in the second iteration, \<^verbatim>\<open>cert_rda\<close>
  raises the solver's error, and the object it leaves behind carries the best bound of
  the first iteration (total loss \<open>3/2\<close>, good loss \<open>1\<close>, bad loss \<open>1\<close>), which the fresh
  object did not have; no attack-point trace has been stored.  On the same input
  \<^verbatim>\<open>generate_upper_and_lower_bounds\<close> raises the error and returns nothing.
\<close>

theorem cert_rda_abort_leaves_best_bound:
  "fst (cert_rda (toy_flaky 2) (1 / 2) fresh_upper_bound) = Inl SolverError
   \<and> best_upper_bound fresh_upper_bound = None
   \<and> best_upper_bound (snd (cert_rda (toy_flaky 2) (1 / 2) fresh_upper_bound)) = Some (3 / 2)
   \<and> best_upper_good_loss (snd (cert_rda (toy_flaky 2) (1 / 2) fresh_upper_bound)) = Some 1
   \<and> best_upper_bad_loss (snd (cert_rda (toy_flaky 2) (1 / 2) fresh_upper_bound)) = Some 1
   \<and> x_c (snd (cert_rda (toy_flaky 2) (1 / 2) fresh_upper_bound)) = None
   \<and> generate_upper_and_lower_bounds choice_first (toy_flaky 2) (1 / 2) 0 = Inl SolverError"
  by (simp add: toy_flaky_cert_rda toy_flaky_legacy_run)
     (simp add: record_best_def toy_it0_def fresh_upper_bound_def)

section \<open>certify\<close>

lemma toy1_cert_rda:
  "cert_rda (toy 1) (1 / 2) self =
     (Inr (Some (3 / 2), Some 0, Some 1),
      (record_best toy_it0 self)\<lparr>x_c := Some [[- 3]], y_c := Some [1]\<rparr>)"
proof -
  have n: "max_iter (toy 1) = 1" by (simp add: toy_def)
  have loop: "cert_rda_loop (toy 1) (1 / 2) [0..<max_iter (toy 1)] (toy_s0 1) self =
     (Inr ((toy_s0 1)\<lparr>x_bs := (replicate 1 [0])[0 := [- 3]], y_bs := (replicate 1 0)[0 := 1],
             sum_of_grads_w := [- 1 / 2], sum_of_grads_b := 1 / 2,
             theta_w := [- 1 / 4], theta_b := 1 / 4\<rparr>),
      record_best toy_it0 self)"
    unfolding n by (rule toy_loop1)
  show ?thesis
    by (simp add: cert_rda_def toy_init loop del: One_nat_def)
       (simp add: record_best_def toy_it0_def)
qed

lemma toy_measure_big:
  "\<exists>it. measure_iterate (toy n) 9999 [0] 0 = Inr it \<and> it_total_loss it = 10000
        \<and> it_worst_x_b it = [- 3] \<and> it_worst_y_b it = 1"
  by (simp add: measure_iterate_def toy_attack0 Let_def) (simp add: toy_def array_defs)

lemma toy1_cert_rda_big:
  "cert_rda (toy 1) 9999 self =
     (Inr (best_upper_bound self, best_upper_good_acc self, best_upper_bad_loss self),
      self\<lparr>x_c := Some [[- 3]], y_c := Some [1]\<rparr>)"
proof -
  from toy_measure_big[of 1] obtain it where
    m: "measure_iterate (toy 1) 9999 [0] 0 = Inr it" and t: "it_total_loss it = 10000"
    and x: "it_worst_x_b it = [- 3]" and y: "it_worst_y_b it = 1"
    by blast
  have m': "measure_iterate (toy 1) 9999 (theta_w (toy_s0 1)) (theta_b (toy_s0 1)) = Inr it"
    using m by (simp add: toy_s0_def)
  have g: "\<not> local_best (toy_s0 1) > it_total_loss it"
    by (simp add: t toy_s0_def)
  have n: "max_iter (toy 1) = 1" by (simp add: toy_def)
  have loop: "cert_rda_loop (toy 1) 9999 [0..<max_iter (toy 1)] (toy_s0 1) self =
     (Inr (rda_update (toy 1) it (store_attack 0 it (toy_s0 1))), self)"
    unfolding n by (simp add: upt_rec del: One_nat_def) (simp add: cert_rda_iter_def m' g del: One_nat_def)
  show ?thesis
    by (simp add: cert_rda_def toy_init loop del: One_nat_def)
       (simp add: store_attack_def x y toy_s0_def)
qed

text \<open>
  C2.  On the example with one iteration, \<^verbatim>\<open>certify([1/2])\<close> returns the total loss \<open>3/2\<close>,
  the value \<open>0\<close> in the array documented as the loss due to the clean data, and the bad
  loss \<open>1\<close>: \<open>0\<close> is the clean accuracy of the best bound, whose good loss is \<open>1\<close>.  The
  runs of one sweep share the object: alone, \<open>epsilon = 9999\<close> never records a bound (its
  only total loss is \<open>10000\<close>) and in \<^verbatim>\<open>certify([9999])\<close> its run returns three
  \<^verbatim>\<open>None\<close>; after \<open>epsilon = 1/2\<close> in the sweep \<^verbatim>\<open>certify([1/2, 9999])\<close> its run returns
  the bound of the run for \<open>1/2\<close>.
\<close>

theorem certify_returns_accuracy_and_shares_state:
  "fst (certify (toy 1) [1 / 2] fresh_upper_bound) = Inr ([Some (3 / 2)], [Some 0], [Some 1])
   \<and> best_upper_good_loss (snd (certify (toy 1) [1 / 2] fresh_upper_bound)) = Some 1
   \<and> best_upper_good_acc (snd (certify (toy 1) [1 / 2] fresh_upper_bound)) = Some 0
   \<and> fst (certify (toy 1) [9999] fresh_upper_bound) = Inr ([None], [None], [None])
   \<and> fst (certify (toy 1) [1 / 2, 9999] fresh_upper_bound)
       = Inr ([Some (3 / 2), Some (3 / 2)], [Some 0, Some 0], [Some 1, Some 1])"
  by (simp add: certify_def toy1_cert_rda toy1_cert_rda_big del: One_nat_def)
     (simp add: record_best_def toy_it0_def fresh_upper_bound_def)

section \<open>Epsilon zero\<close>























section \<open>The attack-point trace\<close>

lemma measure_iterate_attack:
  "measure_iterate p epsilon w b = Inr it \<Longrightarrow>
   find_attack_point p w b = Inr (it_worst_margin it, it_worst_y_b it, it_worst_x_b it)"
  by (auto simp: measure_iterate_def Let_def split: sum.splits prod.splits)

lemma cert_rda_iter_trace:
  assumes "cert_rda_iter p epsilon t s self = (Inr s', self')"
  shows "length (x_bs s') = length (x_bs s) \<and> length (y_bs s') = length (y_bs s)
       \<and> (\<forall>i. i \<noteq> t \<longrightarrow> x_bs s' ! i = x_bs s ! i \<and> y_bs s' ! i = y_bs s ! i)
       \<and> (\<exists>m y x. find_attack_point p (theta_w s) (theta_b s) = Inr (m, y, x)
              \<and> (t < length (x_bs s) \<longrightarrow> x_bs s' ! t = x)
              \<and> (t < length (y_bs s) \<longrightarrow> y_bs s' ! t = y))"
proof -
  from assms obtain it where m: "measure_iterate p epsilon (theta_w s) (theta_b s) = Inr it"
    and s': "s' = rda_update p it (store_attack t it s)"
    by (rule cert_rda_iter_Inr)
  have x: "x_bs s' = (x_bs s)[t := it_worst_x_b it]" and y: "y_bs s' = (y_bs s)[t := it_worst_y_b it]"
    by (simp_all add: s' store_attack_def)
  from measure_iterate_attack[OF m] show ?thesis by (simp add: x y)
qed

lemma cert_rda_loop_trace:
  "cert_rda_loop p epsilon ts s self = (Inr s', self') \<Longrightarrow>
   length (x_bs s') = length (x_bs s) \<and> length (y_bs s') = length (y_bs s)
   \<and> (\<forall>i. i \<notin> set ts \<longrightarrow> x_bs s' ! i = x_bs s ! i \<and> y_bs s' ! i = y_bs s ! i)"
proof (induction ts arbitrary: s self)
  case Nil
  then show ?case by simp
next
  case (Cons t ts)
  then obtain s1 self1 where step: "cert_rda_iter p epsilon t s self = (Inr s1, self1)"
    and rest: "cert_rda_loop p epsilon ts s1 self1 = (Inr s', self')"
    by (auto split: prod.splits sum.splits)
  from cert_rda_iter_trace[OF step] Cons.IH[OF rest] show ?case by simp
qed

lemma cert_rda_loop_prefix:
  assumes "cert_rda_loop p epsilon (ts @ us) s self = (Inr s', self')"
  obtains s1 self1 where "cert_rda_loop p epsilon ts s self = (Inr s1, self1)"
    and "cert_rda_loop p epsilon us s1 self1 = (Inr s', self')"
  using assms by (auto simp: cert_rda_loop_append split: prod.splits sum.splits)

text \<open>What iteration \<open>t\<close> stores is still there after every later iteration.\<close>

lemma cert_rda_loop_entry:
  assumes run: "cert_rda_loop p epsilon [0..<u] s0 self = (Inr s_u, self_u)"
    and t: "t < u" and len: "t < length (x_bs s0)" "t < length (y_bs s0)"
  shows "\<exists>s self_t m.
           cert_rda_loop p epsilon [0..<t] s0 self = (Inr s, self_t)
           \<and> find_attack_point p (theta_w s) (theta_b s) = Inr (m, y_bs s_u ! t, x_bs s_u ! t)"
proof -
  have split: "[0..<u] = [0..<t] @ t # [Suc t..<u]"
    using t by (rule upt_split3)
  from run obtain s self_t where pre: "cert_rda_loop p epsilon [0..<t] s0 self = (Inr s, self_t)"
    and post: "cert_rda_loop p epsilon (t # [Suc t..<u]) s self_t = (Inr s_u, self_u)"
    unfolding split by (rule cert_rda_loop_prefix)
  from post obtain s1 self1 where step: "cert_rda_iter p epsilon t s self_t = (Inr s1, self1)"
    and rest: "cert_rda_loop p epsilon [Suc t..<u] s1 self1 = (Inr s_u, self_u)"
    by (auto split: prod.splits sum.splits)
  from cert_rda_loop_trace[OF pre] len
  have len_s: "t < length (x_bs s)" "t < length (y_bs s)" by simp_all
  from cert_rda_iter_trace[OF step] len_s obtain m y x where
    a: "find_attack_point p (theta_w s) (theta_b s) = Inr (m, y, x)"
    and e: "x_bs s1 ! t = x" "y_bs s1 ! t = y"
    by auto
  have "t \<notin> set [Suc t..<u]" by simp
  with cert_rda_loop_trace[OF rest] have "x_bs s_u ! t = x_bs s1 ! t" "y_bs s_u ! t = y_bs s1 ! t"
    by blast+
  with a e pre show ?thesis by auto
qed

text \<open>
  C8.  When a run of \<^verbatim>\<open>cert_rda\<close> completes, the object holds a trace \<open>X\<close>, \<open>Y\<close> of exactly
  \<open>max_iter\<close> entries each.  For every iteration \<open>t\<close> the iterations before it completed,
  and the entry at \<open>t\<close> is the attack point and the label that the worst-margin search
  selects at the model iteration \<open>t\<close> starts from; after every later iteration \<open>u\<close> the
  arrays of the loop hold that same entry at \<open>t\<close>.
\<close>

theorem trace_records_every_attack_point:
  assumes "cert_rda p epsilon self = (Inr r, self')"
  shows "\<exists>X Y s0.
           x_c self' = Some X \<and> y_c self' = Some Y \<and> init_locals p = Inr s0
           \<and> length X = max_iter p \<and> length Y = max_iter p
           \<and> (\<forall>t < max_iter p.
                 (\<exists>s self_t m.
                    cert_rda_loop p epsilon [0..<t] s0 self = (Inr s, self_t)
                    \<and> find_attack_point p (theta_w s) (theta_b s) = Inr (m, Y ! t, X ! t))
                 \<and> (\<forall>u. t < u \<and> u \<le> max_iter p \<longrightarrow>
                       (\<exists>s_u self_u.
                          cert_rda_loop p epsilon [0..<u] s0 self = (Inr s_u, self_u)
                          \<and> x_bs s_u ! t = X ! t \<and> y_bs s_u ! t = Y ! t)))"
proof -
  let ?N = "max_iter p"
  from assms obtain s0 s_N self_N where init: "init_locals p = Inr s0"
    and run: "cert_rda_loop p epsilon [0..<?N] s0 self = (Inr s_N, self_N)"
    and out: "x_c self' = Some (x_bs s_N)" "y_c self' = Some (y_bs s_N)"
    by (auto simp: cert_rda_def split: sum.splits prod.splits)
  from init have len0: "length (x_bs s0) = ?N" "length (y_bs s0) = ?N"
    by (auto simp: init_locals_def split: if_splits)
  from cert_rda_loop_trace[OF run] len0
  have lenN: "length (x_bs s_N) = ?N" "length (y_bs s_N) = ?N" by simp_all
  have each: "(\<exists>s self_t m.
                 cert_rda_loop p epsilon [0..<t] s0 self = (Inr s, self_t)
                 \<and> find_attack_point p (theta_w s) (theta_b s)
                     = Inr (m, y_bs s_N ! t, x_bs s_N ! t))
              \<and> (\<forall>u. t < u \<and> u \<le> ?N \<longrightarrow>
                    (\<exists>s_u self_u.
                       cert_rda_loop p epsilon [0..<u] s0 self = (Inr s_u, self_u)
                       \<and> x_bs s_u ! t = x_bs s_N ! t \<and> y_bs s_u ! t = y_bs s_N ! t))"
    if t: "t < ?N" for t
  proof
    have lt: "t < length (x_bs s0)" "t < length (y_bs s0)" using t len0 by simp_all
    from cert_rda_loop_entry[OF run t lt]
    show "\<exists>s self_t m.
            cert_rda_loop p epsilon [0..<t] s0 self = (Inr s, self_t)
            \<and> find_attack_point p (theta_w s) (theta_b s) = Inr (m, y_bs s_N ! t, x_bs s_N ! t)" .
    then obtain s self_t m where pre: "cert_rda_loop p epsilon [0..<t] s0 self = (Inr s, self_t)"
      and sel: "find_attack_point p (theta_w s) (theta_b s) = Inr (m, y_bs s_N ! t, x_bs s_N ! t)"
      by blast
    show "\<forall>u. t < u \<and> u \<le> ?N \<longrightarrow>
            (\<exists>s_u self_u.
               cert_rda_loop p epsilon [0..<u] s0 self = (Inr s_u, self_u)
               \<and> x_bs s_u ! t = x_bs s_N ! t \<and> y_bs s_u ! t = y_bs s_N ! t)"
    proof (intro allI impI)
      fix u assume u: "t < u \<and> u \<le> ?N"
      then have sp: "[0..<?N] = [0..<u] @ [u..<?N]"
        by (simp add: upt_split2)
      from run obtain s_u self_u where
        pre_u: "cert_rda_loop p epsilon [0..<u] s0 self = (Inr s_u, self_u)"
        unfolding sp by (rule cert_rda_loop_prefix)
      have tu: "t < u" using u by simp
      have lt: "t < length (x_bs s0)" "t < length (y_bs s0)" using t len0 by simp_all
      from cert_rda_loop_entry[OF pre_u tu lt] obtain s2 self2 m2 where
        pre2: "cert_rda_loop p epsilon [0..<t] s0 self = (Inr s2, self2)"
        and sel2: "find_attack_point p (theta_w s2) (theta_b s2)
                     = Inr (m2, y_bs s_u ! t, x_bs s_u ! t)"
        by blast
      from pre pre2 have "s2 = s" by simp
      with sel sel2 have "x_bs s_u ! t = x_bs s_N ! t" "y_bs s_u ! t = y_bs s_N ! t" by simp_all
      with pre_u show "\<exists>s_u self_u.
               cert_rda_loop p epsilon [0..<u] s0 self = (Inr s_u, self_u)
               \<and> x_bs s_u ! t = x_bs s_N ! t \<and> y_bs s_u ! t = y_bs s_N ! t"
        by blast
    qed
  qed
  from out init lenN each show ?thesis by blast
qed

theorem trace_records_every_attack_point_witness:
  "cert_rda (toy 2) (1 / 2) fresh_upper_bound =
     (Inr (Some 2, Some 0, Some (3 / 2)),
      \<lparr>x_c = Some [[- 3], [- 1]], y_c = Some [1, - 1],
       best_upper_bound = Some 2, best_upper_good_loss = Some (5 / 4),
       best_upper_bad_loss = Some (3 / 2), best_upper_params_norm_sq = Some (1 / 8),
       best_upper_good_acc = Some 0, best_upper_bad_acc = Some 0\<rparr>)
   \<and> max_iter (toy 2) = 2
   \<and> (\<exists>s self_t m.
         cert_rda_loop (toy 2) (1 / 2) [0..<1] (toy_s0 2) fresh_upper_bound = (Inr s, self_t)
         \<and> find_attack_point (toy 2) (theta_w s) (theta_b s) = Inr (m, - 1, [- 1]))
   \<and> (\<exists>s_u self_u.
         cert_rda_loop (toy 2) (1 / 2) [0..<2] (toy_s0 2) fresh_upper_bound = (Inr s_u, self_u)
         \<and> x_bs s_u ! 0 = [- 3] \<and> y_bs s_u ! 0 = 1)"
proof -
  have n: "max_iter (toy 2) = 2" by (simp add: toy_def)
  from trace_records_every_attack_point[OF toy_cert_rda]
  obtain X Y s0 where h: "Some [[- 3], [- 1]] = Some X" "Some [1, - 1] = Some Y"
    "init_locals (toy 2) = Inr s0"
    "\<forall>t < max_iter (toy 2).
        (\<exists>s self_t m.
            cert_rda_loop (toy 2) (1 / 2) [0..<t] s0 fresh_upper_bound = (Inr s, self_t)
            \<and> find_attack_point (toy 2) (theta_w s) (theta_b s) = Inr (m, Y ! t, X ! t))
        \<and> (\<forall>u. t < u \<and> u \<le> max_iter (toy 2) \<longrightarrow>
              (\<exists>s_u self_u.
                  cert_rda_loop (toy 2) (1 / 2) [0..<u] s0 fresh_upper_bound = (Inr s_u, self_u)
                  \<and> x_bs s_u ! t = X ! t \<and> y_bs s_u ! t = Y ! t))"
    by auto
  from h(3) have s0: "s0 = toy_s0 2" by (simp add: toy_init)
  from h(1,2) have XY: "X = [[- 3], [- 1]]" "Y = [1, - 1]" by simp_all
  from h(4)[rule_format, of 1] have
    a: "\<exists>s self_t m.
         cert_rda_loop (toy 2) (1 / 2) [0..<1] (toy_s0 2) fresh_upper_bound = (Inr s, self_t)
         \<and> find_attack_point (toy 2) (theta_w s) (theta_b s) = Inr (m, - 1, [- 1])"
    unfolding n s0 XY by simp
  from h(4)[rule_format, of 0] have
    "\<forall>u. 0 < u \<and> u \<le> 2 \<longrightarrow>
        (\<exists>s_u self_u.
            cert_rda_loop (toy 2) (1 / 2) [0..<u] (toy_s0 2) fresh_upper_bound = (Inr s_u, self_u)
            \<and> x_bs s_u ! 0 = [- 3] \<and> y_bs s_u ! 0 = 1)"
    unfolding n s0 XY by simp
  then have b: "\<exists>s_u self_u.
         cert_rda_loop (toy 2) (1 / 2) [0..<2] (toy_s0 2) fresh_upper_bound = (Inr s_u, self_u)
         \<and> x_bs s_u ! 0 = [- 3] \<and> y_bs s_u ! 0 = 1"
    by simp
  from toy_cert_rda n a b show ?thesis by blast
qed

section \<open>Folding the attack point into the gradient\<close>

lemma find_attack_point_margin:
  assumes "find_attack_point p w b = Inr (m, y, x)"
  shows "m = y * (dot w x + b)"
proof -
  from find_attack_point_replaced[OF assms] obtain l where "candidate p w b l = Inr (m, y, x)"
    unfolding replaced_def by blast
  then show ?thesis by (simp add: candidate_parts)
qed

lemma hinge_loss_point:
  "hinge_loss w b [x] [y] = max (1 - y * (dot w x + b)) 0"
  by (simp add: hinge_loss_def np_mean_def dot_commute[of x w])

text \<open>
  C4.  In an iteration that selects the margin \<open>worst_margin\<close>, the label \<open>worst_y_b\<close> and
  the point \<open>worst_x_b\<close>: when \<open>worst_margin < 1\<close> the gradient handed to the update is
  the clean gradient with \<open>epsilon * worst_y_b * worst_x_b\<close> subtracted from \<open>grad_w\<close> and
  \<open>epsilon * worst_y_b\<close> from \<open>grad_b\<close>; when \<open>1 \<le> worst_margin\<close> it is the clean gradient
  itself, and with the hinge loss as the classifier's loss, as in
  \<^verbatim>\<open>generate_upper_and_lower_bounds\<close>, the bad loss of the iteration is zero.  The update
  subtracts that gradient from the sums of gradients.
\<close>

theorem attack_folded_iff_margin_below_one:
  assumes "measure_iterate p epsilon w b = Inr it"
  shows "find_attack_point p w b = Inr (it_worst_margin it, it_worst_y_b it, it_worst_x_b it)
       \<and> (it_worst_margin it < 1 \<longrightarrow>
            it_grad_w it = vsub (fst (loss_grad p (features p) (labels p) w b))
                               (vscale (epsilon * it_worst_y_b it) (it_worst_x_b it))
          \<and> it_grad_b it = snd (loss_grad p (features p) (labels p) w b)
                              - epsilon * it_worst_y_b it)
       \<and> (1 \<le> it_worst_margin it \<longrightarrow>
            it_grad_w it = fst (loss_grad p (features p) (labels p) w b)
          \<and> it_grad_b it = snd (loss_grad p (features p) (labels p) w b)
          \<and> (loss p = (\<lambda>X Y w b. hinge_loss w b X Y) \<longrightarrow> it_bad_loss it = 0))
       \<and> sum_of_grads_w (rda_update p it (store_attack t it s))
            = vsub (sum_of_grads_w s) (it_grad_w it)
       \<and> sum_of_grads_b (rda_update p it (store_attack t it s))
            = sum_of_grads_b s - it_grad_b it"
proof -
  have sel: "find_attack_point p w b = Inr (it_worst_margin it, it_worst_y_b it, it_worst_x_b it)"
    using assms by (rule measure_iterate_attack)
  have margin: "it_worst_margin it = it_worst_y_b it * (dot w (it_worst_x_b it) + b)"
    using sel by (rule find_attack_point_margin)
  have grad: "(it_grad_w it, it_grad_b it) =
      fold_attack epsilon (it_worst_margin it, it_worst_y_b it, it_worst_x_b it)
        (loss_grad p (features p) (labels p) w b)"
    and bad: "it_bad_loss it = loss p [it_worst_x_b it] [it_worst_y_b it] w b"
    using assms by (auto simp: measure_iterate_def Let_def split: sum.splits prod.splits)
  have below: "it_grad_w it = vsub (fst (loss_grad p (features p) (labels p) w b))
                               (vscale (epsilon * it_worst_y_b it) (it_worst_x_b it))
          \<and> it_grad_b it = snd (loss_grad p (features p) (labels p) w b)
                              - epsilon * it_worst_y_b it"
    if "it_worst_margin it < 1"
    using grad that
    by (cases "loss_grad p (features p) (labels p) w b") (auto simp: fold_attack_def)
  have above: "it_grad_w it = fst (loss_grad p (features p) (labels p) w b)
          \<and> it_grad_b it = snd (loss_grad p (features p) (labels p) w b)"
    if "1 \<le> it_worst_margin it"
    using grad that
    by (cases "loss_grad p (features p) (labels p) w b") (auto simp: fold_attack_def)
  have zero: "it_bad_loss it = 0"
    if "1 \<le> it_worst_margin it" and "loss p = (\<lambda>X Y w b. hinge_loss w b X Y)"
    using that margin by (simp add: bad hinge_loss_point)
  have upd: "sum_of_grads_w (rda_update p it (store_attack t it s))
               = vsub (sum_of_grads_w s) (it_grad_w it)"
    "sum_of_grads_b (rda_update p it (store_attack t it s)) = sum_of_grads_b s - it_grad_b it"
    by (simp_all add: rda_update_def Let_def)
  from sel below above zero upd show ?thesis by blast
qed

lemma toy_attack_far: "find_attack_point (toy n) [- 2] (- 3) = Inr (1, - 1, [- 1])"
  by (simp add: find_attack_point_def toy_def minimize_over_feasible_set_def toy_solve_def
        array_defs)

lemma toy_measure_far:
  "measure_iterate (toy n) (1 / 2) [- 2] (- 3) =
     Inr \<lparr>it_grad_w = [- 1 / 2], it_grad_b = - 1 / 2, it_worst_margin = 1, it_worst_y_b = - 1,
          it_worst_x_b = [- 1], it_bad_loss = 0, it_good_loss = 3, it_params_norm_sq = 13,
          it_total_loss = 3, it_good_acc = 1 / 2\<rparr>"
  unfolding measure_iterate_def toy_attack_far
  by (simp add: fold_attack_def good_acc_def toy_def array_defs Let_def)

theorem attack_folded_iff_margin_below_one_witness:
  "measure_iterate (toy 2) (1 / 2) [0] 0 = Inr toy_it0
   \<and> it_worst_margin toy_it0 < 1
   \<and> loss_grad (toy 2) (features (toy 2)) (labels (toy 2)) [0] 0 = ([- 1], 0)
   \<and> it_grad_w toy_it0 = vsub (fst (loss_grad (toy 2) (features (toy 2)) (labels (toy 2)) [0] 0))
                              (vscale (1 / 2 * it_worst_y_b toy_it0) (it_worst_x_b toy_it0))
   \<and> it_grad_b toy_it0 = snd (loss_grad (toy 2) (features (toy 2)) (labels (toy 2)) [0] 0)
                              - 1 / 2 * it_worst_y_b toy_it0
   \<and> (\<exists>it. measure_iterate (toy 2) (1 / 2) [- 2] (- 3) = Inr it
          \<and> 1 \<le> it_worst_margin it
          \<and> loss (toy 2) = (\<lambda>X Y w b. hinge_loss w b X Y)
          \<and> it_grad_w it = fst (loss_grad (toy 2) (features (toy 2)) (labels (toy 2)) [- 2] (- 3))
          \<and> it_grad_b it = snd (loss_grad (toy 2) (features (toy 2)) (labels (toy 2)) [- 2] (- 3))
          \<and> it_bad_loss it = 0)"
proof -
  have lt: "it_worst_margin toy_it0 < 1" by (simp add: toy_it0_def)
  have g: "loss_grad (toy 2) (features (toy 2)) (labels (toy 2)) [0] 0 = ([- 1], 0)"
    by (simp add: toy_def array_defs Let_def)
  have h: "loss (toy 2) = (\<lambda>X Y w b. hinge_loss w b X Y)" by (simp add: toy_def)
  obtain it where far: "measure_iterate (toy 2) (1 / 2) [- 2] (- 3) = Inr it"
    and ge: "1 \<le> it_worst_margin it"
    using toy_measure_far[of 2] by simp
  from attack_folded_iff_margin_below_one[OF toy_measure0[of 2]]
    attack_folded_iff_margin_below_one[OF far] lt ge g h toy_measure0[of 2] far
  show ?thesis by blast
qed

section \<open>Sampling the poisoned points\<close>

lemma choice_first_ok: "choice_ok choice_first"
  unfolding choice_ok_def choice_first_def by auto

lemma np_take_in_range:
  "\<forall>i \<in> set idx. 0 \<le> i \<and> i < int (length xs) \<Longrightarrow>
   np_take xs idx = Inr (map (\<lambda>i. xs ! nat i) idx)"
  by (induction idx) (auto simp: Let_def)

lemma sample_too_many:
  "sample_lower_bound_attack choice_first [[1], [- 1]] [1, - 1] [[- 3]] [1] 1 0 = Inl ValueError"
proof -
  have i: "idx_to_sample choice_first (length [[- 3::real]]) (length [[1::real], [- 1]]) 1 0
             = Inl ValueError"
    unfolding idx_to_sample_def sample_size_all by (simp add: choice_first_def)
  show ?thesis
    unfolding sample_lower_bound_attack_def i by simp
qed

text \<open>
  C10, as the claim states it, fails.  For a trace of one attack point, two clean points
  and \<open>epsilon = 1\<close> the sampler is asked for \<open>round(1 * 2) = 2\<close> distinct indices out of
  one: \<^verbatim>\<open>np.random.choice\<close> raises \<^verbatim>\<open>ValueError\<close>, and no index is selected.
\<close>

theorem sample_lower_bound_attack_counterexample:
  "choice_ok choice_first
   \<and> np_round (float_mul 1 (real (length [[1::real], [- 1]]))) = 2
   \<and> sample_lower_bound_attack choice_first [[1], [- 1]] [1, - 1] [[- 3]] [1] 1 0
       = Inl ValueError"
  using choice_first_ok sample_size_all sample_too_many by simp

text \<open>
  C10, amended.  Let \<open>k\<close> be the sample size as the code computes it, the double product
  of \<open>epsilon\<close> and the number \<open>n\<close> of clean points rounded to an integer, a half going to
  the even neighbour, and let the trace have as many labels as points.  When
  \<open>0 \<le> num_iter_to_throw_out\<close>, the population \<open>max_iter - num_iter_to_throw_out\<close> is
  positive and \<open>0 \<le> k\<close> is at most the population (and below \<open>2 ^ 63\<close>), the sampler
  returns: it selects exactly \<open>k\<close> distinct indices, each at least
  \<open>num_iter_to_throw_out\<close> and below \<open>max_iter\<close>; the modified data are the clean points
  in their order followed by the trace entries at the selected indices, and \<open>idx_train\<close>
  and \<open>idx_poison\<close> are the slices of these two ranges.  When \<open>k\<close> fits a signed 64-bit
  integer and is negative or above the population, the sampler raises \<^verbatim>\<open>ValueError\<close>;
  when the population is positive and \<open>k\<close> is \<open>2 ^ 63\<close> or more, it raises
  \<^verbatim>\<open>OverflowError\<close>.
\<close>

theorem sample_lower_bound_attack_selects:
  assumes "choice_ok choice" and "length xbs = length ybs"
  shows "(0 \<le> num_iter_to_throw_out
          \<and> 0 < int (length xbs) - num_iter_to_throw_out
          \<and> 0 \<le> np_round (float_mul epsilon (real (length X_train)))
          \<and> np_round (float_mul epsilon (real (length X_train)))
               \<le> int (length xbs) - num_iter_to_throw_out
          \<and> np_round (float_mul epsilon (real (length X_train))) < 2 ^ 63
          \<longrightarrow>
          (\<exists>idx r.
             idx_to_sample choice (length xbs) (length X_train) epsilon num_iter_to_throw_out
               = Inr idx
             \<and> int (length idx) = np_round (float_mul epsilon (real (length X_train)))
             \<and> distinct idx
             \<and> (\<forall>i \<in> set idx. num_iter_to_throw_out \<le> i \<and> i < int (length xbs))
             \<and> sample_lower_bound_attack choice X_train Y_train xbs ybs epsilon
                  num_iter_to_throw_out = Inr r
             \<and> X_modified r = X_train @ map (\<lambda>i. xbs ! nat i) idx
             \<and> Y_modified r = Y_train @ map (\<lambda>i. ybs ! nat i) idx
             \<and> idx_train r = (0, length X_train)
             \<and> idx_poison r = (length X_train, length X_train + length idx)
             \<and> slice (X_modified r) (idx_train r) = X_train
             \<and> slice (X_modified r) (idx_poison r) = map (\<lambda>i. xbs ! nat i) idx))
       \<and> ((np_round (float_mul epsilon (real (length X_train))) < 0
           \<or> int (length xbs) - num_iter_to_throw_out
                < np_round (float_mul epsilon (real (length X_train))))
          \<and> - (2 ^ 63) \<le> np_round (float_mul epsilon (real (length X_train)))
          \<and> np_round (float_mul epsilon (real (length X_train))) < 2 ^ 63
          \<longrightarrow>
          sample_lower_bound_attack choice X_train Y_train xbs ybs epsilon num_iter_to_throw_out
            = Inl ValueError)
       \<and> (0 < int (length xbs) - num_iter_to_throw_out
          \<and> 2 ^ 63 \<le> np_round (float_mul epsilon (real (length X_train)))
          \<longrightarrow>
          sample_lower_bound_attack choice X_train Y_train xbs ybs epsilon num_iter_to_throw_out
            = Inl OverflowError)"
proof (intro conjI impI)
  let ?k = "np_round (float_mul epsilon (real (length X_train)))"
  let ?a = "int (length xbs) - num_iter_to_throw_out"
  assume h: "0 \<le> num_iter_to_throw_out \<and> 0 < ?a \<and> 0 \<le> ?k \<and> ?k \<le> ?a \<and> ?k < 2 ^ 63"
  with assms(1) obtain idx0 where c: "choice ?a ?k = Inr idx0" and l: "int (length idx0) = ?k"
    and d: "distinct idx0" and r: "\<forall>i \<in> set idx0. int i < ?a"
    unfolding choice_ok_def by blast
  define idx where "idx = map (\<lambda>i. int i + num_iter_to_throw_out) idx0"
  have sel: "idx_to_sample choice (length xbs) (length X_train) epsilon num_iter_to_throw_out
               = Inr idx"
    by (simp add: idx_to_sample_def c idx_def)
  have len: "int (length idx) = ?k" by (simp add: idx_def l)
  have dist: "distinct idx"
    unfolding idx_def using d by (simp add: distinct_map inj_on_def)
  have range: "\<forall>i \<in> set idx. num_iter_to_throw_out \<le> i \<and> i < int (length xbs)"
    unfolding idx_def using r by auto
  have inx: "\<forall>i \<in> set idx. 0 \<le> i \<and> i < int (length xbs)"
    using range h by auto
  have iny: "\<forall>i \<in> set idx. 0 \<le> i \<and> i < int (length ybs)"
    using inx assms(2) by simp
  define res where "res =
     \<lparr>X_modified = X_train @ map (\<lambda>i. xbs ! nat i) idx,
      Y_modified = Y_train @ map (\<lambda>i. ybs ! nat i) idx,
      idx_train = (0, length X_train),
      idx_poison = (length X_train, length (X_train @ map (\<lambda>i. xbs ! nat i) idx))\<rparr>"
  have run: "sample_lower_bound_attack choice X_train Y_train xbs ybs epsilon
               num_iter_to_throw_out = Inr res"
    using sel
    by (simp add: sample_lower_bound_attack_def assms(2) np_take_in_range[OF inx]
          np_take_in_range[OF iny] res_def)
  have parts: "X_modified res = X_train @ map (\<lambda>i. xbs ! nat i) idx"
    "Y_modified res = Y_train @ map (\<lambda>i. ybs ! nat i) idx"
    "idx_train res = (0, length X_train)"
    "idx_poison res = (length X_train, length X_train + length idx)"
    "slice (X_modified res) (idx_train res) = X_train"
    "slice (X_modified res) (idx_poison res) = map (\<lambda>i. xbs ! nat i) idx"
    by (simp_all add: res_def slice_def)
  from sel len dist range run parts
  show "\<exists>idx r.
          idx_to_sample choice (length xbs) (length X_train) epsilon num_iter_to_throw_out
            = Inr idx
          \<and> int (length idx) = ?k
          \<and> distinct idx
          \<and> (\<forall>i \<in> set idx. num_iter_to_throw_out \<le> i \<and> i < int (length xbs))
          \<and> sample_lower_bound_attack choice X_train Y_train xbs ybs epsilon
               num_iter_to_throw_out = Inr r
          \<and> X_modified r = X_train @ map (\<lambda>i. xbs ! nat i) idx
          \<and> Y_modified r = Y_train @ map (\<lambda>i. ybs ! nat i) idx
          \<and> idx_train r = (0, length X_train)
          \<and> idx_poison r = (length X_train, length X_train + length idx)
          \<and> slice (X_modified r) (idx_train r) = X_train
          \<and> slice (X_modified r) (idx_poison r) = map (\<lambda>i. xbs ! nat i) idx"
    by blast
next
  let ?k = "np_round (float_mul epsilon (real (length X_train)))"
  let ?a = "int (length xbs) - num_iter_to_throw_out"
  assume "(?k < 0 \<or> ?a < ?k) \<and> - (2 ^ 63) \<le> ?k \<and> ?k < 2 ^ 63"
  with assms(1) have "choice ?a ?k = Inl ValueError"
    unfolding choice_ok_def by blast
  then show "sample_lower_bound_attack choice X_train Y_train xbs ybs epsilon
               num_iter_to_throw_out = Inl ValueError"
    by (simp add: sample_lower_bound_attack_def assms(2) idx_to_sample_def)
next
  let ?k = "np_round (float_mul epsilon (real (length X_train)))"
  let ?a = "int (length xbs) - num_iter_to_throw_out"
  assume "0 < ?a \<and> 2 ^ 63 \<le> ?k"
  with assms(1) have "choice ?a ?k = Inl OverflowError"
    unfolding choice_ok_def by blast
  then show "sample_lower_bound_attack choice X_train Y_train xbs ybs epsilon
               num_iter_to_throw_out = Inl OverflowError"
    by (simp add: sample_lower_bound_attack_def assms(2) idx_to_sample_def)
qed

lemma toy_sample_skip:
  "sample_lower_bound_attack choice_first [[1], [- 1]] [1, - 1] [[- 3], [- 1]] [1, - 1] (1 / 2) 1 =
     Inr \<lparr>X_modified = [[1], [- 1], [- 1]], Y_modified = [1, - 1, - 1],
          idx_train = (0, 2), idx_poison = (2, 3)\<rparr>"
proof -
  have i: "idx_to_sample choice_first (length [[- 3::real], [- 1]]) (length [[1::real], [- 1]])
             (1 / 2) 1 = Inr [1]"
    unfolding idx_to_sample_def sample_size_half by (simp add: choice_first_def)
  show ?thesis
    unfolding sample_lower_bound_attack_def i by simp
qed

lemma sample_size_huge: "np_round (float_mul (2 ^ 63) (real (length [[1::real]]))) = 2 ^ 63"
proof -
  have l: "real (length [[1::real]]) = 1" by simp
  have "np_round (of_int (2 ^ 63)) = 2 ^ 63" by (rule np_round_of_int)
  then have r: "np_round (2 ^ 63) = 2 ^ 63" by (simp only: of_int_power of_int_numeral)
  show ?thesis unfolding float_mul_def l mult_1_right float_round_two_63 by (rule r)
qed

theorem sample_lower_bound_attack_selects_witness:
  "choice_ok choice_first
   \<and> length [[- 3::real], [- 1]] = length [1::real, - 1]
   \<and> (0::int) \<le> 1
   \<and> 0 < int (length [[- 3::real], [- 1]]) - 1
   \<and> np_round (float_mul (1 / 2) (real (length [[1::real], [- 1]]))) = 1
   \<and> np_round (float_mul (1 / 2) (real (length [[1::real], [- 1]])))
        \<le> int (length [[- 3::real], [- 1]]) - 1
   \<and> idx_to_sample choice_first (length [[- 3::real], [- 1]]) (length [[1::real], [- 1]])
        (1 / 2) 1 = Inr [1]
   \<and> sample_lower_bound_attack choice_first [[1], [- 1]] [1, - 1] [[- 3], [- 1]] [1, - 1] (1 / 2) 1
       = Inr \<lparr>X_modified = [[1], [- 1], [- 1]], Y_modified = [1, - 1, - 1],
              idx_train = (0, 2), idx_poison = (2, 3)\<rparr>
   \<and> (\<exists>idx r.
         idx_to_sample choice_first (length [[- 3::real], [- 1]]) (length [[1::real], [- 1]])
           (1 / 2) 1 = Inr idx
         \<and> distinct idx
         \<and> sample_lower_bound_attack choice_first [[1], [- 1]] [1, - 1] [[- 3], [- 1]] [1, - 1]
              (1 / 2) 1 = Inr r
         \<and> slice (X_modified r) (idx_train r) = [[1], [- 1]]
         \<and> slice (X_modified r) (idx_poison r) = map (\<lambda>i. [[- 3], [- 1]] ! nat i) idx)
   \<and> np_round (float_mul 1 (real (length [[1::real], [- 1]]))) = 2
   \<and> int (length [[- 3::real]]) - 0 < np_round (float_mul 1 (real (length [[1::real], [- 1]])))
   \<and> sample_lower_bound_attack choice_first [[1], [- 1]] [1, - 1] [[- 3]] [1] 1 0
       = Inl ValueError
   \<and> 0 < int (length [[- 3::real]]) - 0
   \<and> np_round (float_mul (2 ^ 63) (real (length [[1::real]]))) = 2 ^ 63
   \<and> sample_lower_bound_attack choice_first [[1]] [1] [[- 3]] [1] (2 ^ 63) 0
       = Inl OverflowError"
proof -
  have e: "length [[- 3::real], [- 1]] = length [1::real, - 1]" by simp
  have e1: "length [[- 3::real]] = length [1::real]" by simp
  have pre: "0 \<le> (1::int) \<and> 0 < int (length [[- 3::real], [- 1]]) - 1
     \<and> 0 \<le> np_round (float_mul (1 / 2) (real (length [[1::real], [- 1]])))
     \<and> np_round (float_mul (1 / 2) (real (length [[1::real], [- 1]])))
          \<le> int (length [[- 3::real], [- 1]]) - 1
     \<and> np_round (float_mul (1 / 2) (real (length [[1::real], [- 1]]))) < 2 ^ 63"
    unfolding sample_size_half by simp
  have i: "idx_to_sample choice_first (length [[- 3::real], [- 1]]) (length [[1::real], [- 1]])
             (1 / 2) 1 = Inr [1]"
    unfolding idx_to_sample_def sample_size_half by (simp add: choice_first_def)
  have big: "(np_round (float_mul 1 (real (length [[1::real], [- 1]]))) < 0
              \<or> int (length [[- 3::real]]) - 0
                   < np_round (float_mul 1 (real (length [[1::real], [- 1]]))))
     \<and> - (2 ^ 63) \<le> np_round (float_mul 1 (real (length [[1::real], [- 1]])))
     \<and> np_round (float_mul 1 (real (length [[1::real], [- 1]]))) < 2 ^ 63"
    unfolding sample_size_all by simp
  have big1: "int (length [[- 3::real]]) - 0
                < np_round (float_mul 1 (real (length [[1::real], [- 1]])))"
    unfolding sample_size_all by simp
  have huge: "0 < int (length [[- 3::real]]) - 0
     \<and> 2 ^ 63 \<le> np_round (float_mul (2 ^ 63) (real (length [[1::real]])))"
    unfolding sample_size_huge by simp
  have pop: "0 < int (length [[- 3::real]]) - 0" by simp
  from sample_lower_bound_attack_selects[OF choice_first_ok e,
      where num_iter_to_throw_out = 1 and epsilon = "1 / 2" and X_train = "[[1], [- 1]]"
        and Y_train = "[1, - 1]"] pre
  have a: "\<exists>idx r.
         idx_to_sample choice_first (length [[- 3::real], [- 1]]) (length [[1::real], [- 1]])
           (1 / 2) 1 = Inr idx
         \<and> distinct idx
         \<and> sample_lower_bound_attack choice_first [[1], [- 1]] [1, - 1] [[- 3], [- 1]] [1, - 1]
              (1 / 2) 1 = Inr r
         \<and> slice (X_modified r) (idx_train r) = [[1], [- 1]]
         \<and> slice (X_modified r) (idx_poison r) = map (\<lambda>i. [[- 3], [- 1]] ! nat i) idx"
    by blast
  from sample_lower_bound_attack_selects[OF choice_first_ok e1,
      where num_iter_to_throw_out = 0 and epsilon = 1 and X_train = "[[1], [- 1]]"
        and Y_train = "[1, - 1]"] big
  have b: "sample_lower_bound_attack choice_first [[1], [- 1]] [1, - 1] [[- 3]] [1] 1 0
       = Inl ValueError"
    by blast
  from sample_lower_bound_attack_selects[OF choice_first_ok e1,
      where num_iter_to_throw_out = 0 and epsilon = "2 ^ 63" and X_train = "[[1]]"
        and Y_train = "[1]"] huge
  have c: "sample_lower_bound_attack choice_first [[1]] [1] [[- 3]] [1] (2 ^ 63) 0
       = Inl OverflowError"
    by blast
  from a b c choice_first_ok e pre i toy_sample_skip sample_size_half sample_size_all big1 pop
    sample_size_huge
  show ?thesis by simp
qed

section \<open>The projection basis\<close>

lemma length_vsub [simp]: "length (vsub u v) = min (length u) (length v)"
  by (simp add: vsub_def)

lemma length_vscale [simp]: "length (vscale c v) = length v"
  by (simp add: vscale_def)

lemma dot_vscale_left: "dot (vscale c v) q = c * dot v q"
proof (induction v arbitrary: q)
  case Nil
  then show ?case by (simp add: dot_def vscale_def)
next
  case (Cons a v)
  then show ?case by (cases q) (simp_all add: dot_def vscale_def algebra_simps)
qed

lemma dot_vsub_left:
  "length u = length v \<Longrightarrow> length v = length q \<Longrightarrow> dot (vsub u v) q = dot u q - dot v q"
proof (induction u v q rule: list_induct3)
  case Nil
  then show ?case by (simp add: dot_def vsub_def)
next
  case (Cons a u b v c q)
  then show ?case by (simp add: dot_def vsub_def algebra_simps)
qed

lemma dot_self: "dot v v = sum_list (map (\<lambda>z. z\<^sup>2) v)"
  by (induction v) (simp_all add: dot_def power2_eq_square)

lemma dot_self_pos:
  assumes "\<not> list_all (\<lambda>z. z = 0) v"
  shows "0 < dot v v"
proof -
  from assms obtain z where z: "z \<in> set v" "z \<noteq> 0" by (auto simp: list_all_iff)
  have "0 < z\<^sup>2" using z(2) by simp
  moreover have "z\<^sup>2 \<le> sum_list (map (\<lambda>z. z\<^sup>2) v)"
    using z(1) by (intro member_le_sum_list) auto
  ultimately have "0 < sum_list (map (\<lambda>z. z\<^sup>2) v)" by linarith
  then show ?thesis by (simp add: dot_self)
qed

lemma unit_after_scaling:
  assumes "\<not> list_all (\<lambda>z. z = 0) v"
  shows "dot (vscale (1 / linalg_norm v) v) (vscale (1 / linalg_norm v) v) = 1"
proof -
  have pos: "0 < dot v v" using assms by (rule dot_self_pos)
  have n: "(linalg_norm v)\<^sup>2 = dot v v" by (simp add: linalg_norm_sq dot_self)
  have "dot (vscale (1 / linalg_norm v) v) (vscale (1 / linalg_norm v) v)
          = (1 / linalg_norm v) * ((1 / linalg_norm v) * dot v v)"
    by (simp add: dot_vscale_left dot_commute[of v "vscale (1 / linalg_norm v) v"])
  also have "\<dots> = dot v v / (linalg_norm v)\<^sup>2" by (simp add: power2_eq_square)
  also have "\<dots> = 1" using pos n by simp
  finally show ?thesis .
qed

lemma orthonormal_rows_snoc:
  "orthonormal_rows (B @ [q]) \<longleftrightarrow>
     orthonormal_rows B \<and> dot q q = 1 \<and> (\<forall>r \<in> set B. dot r q = 0)"
proof
  assume o: "orthonormal_rows (B @ [q])"
  have a: "orthonormal_rows B"
    unfolding orthonormal_rows_def
  proof (intro allI impI)
    fix i j assume "i < length B" "j < length B"
    with o[unfolded orthonormal_rows_def, rule_format, of i j]
    show "dot (B ! i) (B ! j) = (if i = j then 1 else 0)" by (simp add: nth_append)
  qed
  have b: "dot q q = 1"
    using o[unfolded orthonormal_rows_def, rule_format, of "length B" "length B"] by simp
  have c: "\<forall>r \<in> set B. dot r q = 0"
  proof
    fix r assume "r \<in> set B"
    then obtain i where i: "i < length B" "B ! i = r" by (auto simp: in_set_conv_nth)
    with o[unfolded orthonormal_rows_def, rule_format, of i "length B"]
    show "dot r q = 0" by (simp add: nth_append)
  qed
  from a b c show "orthonormal_rows B \<and> dot q q = 1 \<and> (\<forall>r \<in> set B. dot r q = 0)" by blast
next
  assume h: "orthonormal_rows B \<and> dot q q = 1 \<and> (\<forall>r \<in> set B. dot r q = 0)"
  show "orthonormal_rows (B @ [q])"
    unfolding orthonormal_rows_def
  proof (intro allI impI)
    fix i j assume ij: "i < length (B @ [q])" "j < length (B @ [q])"
    have "i < length B \<or> i = length B" and "j < length B \<or> j = length B"
      using ij by (simp_all add: less_Suc_eq)
    then consider "i < length B" "j < length B" | "i < length B" "j = length B"
      | "i = length B" "j < length B" | "i = length B" "j = length B"
      by blast
    then show "dot ((B @ [q]) ! i) ((B @ [q]) ! j) = (if i = j then 1 else 0)"
    proof cases
      case 1
      with h show ?thesis by (simp add: nth_append orthonormal_rows_def)
    next
      case 2
      then have "B ! i \<in> set B" by simp
      with h 2 show ?thesis by (simp add: nth_append)
    next
      case 3
      then have "B ! j \<in> set B" by simp
      moreover have "dot q (B ! j) = dot (B ! j) q" by (rule dot_commute)
      ultimately show ?thesis using h 3 by (simp add: nth_append)
    next
      case 4
      with h show ?thesis by simp
    qed
  qed
qed

lemma length_residual:
  "rows_of_dim d B \<Longrightarrow> length r = d \<Longrightarrow> length (residual B r) = d"
proof (induction B arbitrary: r)
  case Nil
  then show ?case by (simp add: residual_def)
next
  case (Cons q B)
  then have "length (vsub r (vscale (dot r q) q)) = d" by (simp add: rows_of_dim_def)
  with Cons show ?case by (simp add: residual_def rows_of_dim_def)
qed

lemma residual_snoc:
  "residual (B @ [q]) r = vsub (residual B r) (vscale (dot (residual B r) q) q)"
  by (simp add: residual_def)

lemma residual_orthogonal:
  "orthonormal_rows B \<Longrightarrow> rows_of_dim d B \<Longrightarrow> length r = d \<Longrightarrow>
   \<forall>q \<in> set B. dot (residual B r) q = 0"
proof (induction B rule: rev_induct)
  case Nil
  then show ?case by simp
next
  case (snoc q B)
  from snoc.prems(1) have ob: "orthonormal_rows B" and qq: "dot q q = 1"
    and bq: "\<forall>x \<in> set B. dot x q = 0"
    by (simp_all add: orthonormal_rows_snoc)
  from snoc.prems(2) have db: "rows_of_dim d B" and lq: "length q = d"
    by (simp_all add: rows_of_dim_def)
  let ?v = "residual B r"
  have lv: "length ?v = d" using db snoc.prems(3) by (rule length_residual)
  have ih: "\<forall>x \<in> set B. dot ?v x = 0" using ob db snoc.prems(3) by (rule snoc.IH)
  have step: "dot (residual (B @ [q]) r) x = dot ?v x - dot ?v q * dot q x"
    if "length x = d" for x
    unfolding residual_snoc using lv lq that
    by (simp add: dot_vsub_left dot_vscale_left)
  show ?case
  proof
    fix x assume "x \<in> set (B @ [q])"
    then consider "x \<in> set B" | "x = q" by auto
    then show "dot (residual (B @ [q]) r) x = 0"
    proof cases
      case 1
      then have lx: "length x = d" using db by (simp add: rows_of_dim_def list_all_iff)
      have "dot q x = 0" using bq 1 by (simp add: dot_commute[of q x])
      with ih 1 step[OF lx] show ?thesis by simp
    next
      case 2
      with step[OF lq] qq show ?thesis by simp
    qed
  qed
qed

lemma gram_schmidt_ok:
  "orthonormal_rows B \<Longrightarrow> rows_of_dim d B \<Longrightarrow> rows_of_dim d M \<Longrightarrow>
   orthonormal_rows (gram_schmidt B M) \<and> rows_of_dim d (gram_schmidt B M)
   \<and> length (gram_schmidt B M) \<le> length B + length M"
proof (induction M arbitrary: B)
  case Nil
  then show ?case by simp
next
  case (Cons r M)
  from Cons.prems(3) have lr: "length r = d" and dm: "rows_of_dim d M"
    by (simp_all add: rows_of_dim_def)
  let ?v = "residual B r"
  have lv: "length ?v = d" using Cons.prems(2) lr by (rule length_residual)
  show ?case
  proof (cases "list_all (\<lambda>z. z = 0) ?v")
    case True
    with Cons.IH[OF Cons.prems(1,2) dm] show ?thesis by (simp add: Let_def)
  next
    case False
    let ?q = "vscale (1 / linalg_norm ?v) ?v"
    have unit: "dot ?q ?q = 1" using False by (rule unit_after_scaling)
    have orth: "\<forall>x \<in> set B. dot x ?q = 0"
    proof
      fix x assume "x \<in> set B"
      with residual_orthogonal[OF Cons.prems(1,2) lr] have "dot ?v x = 0" by blast
      then show "dot x ?q = 0" by (simp add: dot_commute[of x ?q] dot_vscale_left)
    qed
    have o: "orthonormal_rows (B @ [?q])"
      using Cons.prems(1) unit orth by (simp add: orthonormal_rows_snoc)
    have dd: "rows_of_dim d (B @ [?q])"
      using Cons.prems(2) lv by (simp add: rows_of_dim_def)
    from Cons.IH[OF o dd dm] False show ?thesis by (simp add: Let_def)
  qed
qed

text \<open>Gram-Schmidt keeps orthonormal rows as they are, so it returns one row more for
  orthonormal rows followed by a row outside their span.\<close>

lemma vsub_vscale_zero: "length q = length v \<Longrightarrow> vsub v (vscale 0 q) = v"
  by (induction q v rule: list_induct2) (simp_all add: vsub_def vscale_def)

lemma residual_fixed:
  "rows_of_dim (length r) B \<Longrightarrow> \<forall>q \<in> set B. dot r q = 0 \<Longrightarrow> residual B r = r"
proof (induction B)
  case Nil
  then show ?case by (simp add: residual_def)
next
  case (Cons q B)
  then have "vsub r (vscale (dot r q) q) = r"
    by (simp add: rows_of_dim_def vsub_vscale_zero)
  moreover have "residual B r = r" using Cons by (simp add: rows_of_dim_def)
  ultimately show ?case by (simp add: residual_def)
qed

lemma orthonormal_rows_prefix: "orthonormal_rows (A @ C) \<Longrightarrow> orthonormal_rows A"
  unfolding orthonormal_rows_def
proof (intro allI impI)
  fix i j
  assume o: "\<forall>i < length (A @ C). \<forall>j < length (A @ C).
               dot ((A @ C) ! i) ((A @ C) ! j) = (if i = j then 1 else 0)"
    and ij: "i < length A" "j < length A"
  from o[rule_format, of i j] ij
  show "dot (A ! i) (A ! j) = (if i = j then 1 else 0)" by (simp add: nth_append)
qed

lemma all_zero_dot: "list_all (\<lambda>z. z = 0) v \<Longrightarrow> dot v v = 0"
  by (induction v) (simp_all add: dot_def)

lemma gram_schmidt_prefix:
  "orthonormal_rows (B @ P) \<Longrightarrow> rows_of_dim d (B @ P) \<Longrightarrow>
   gram_schmidt B (P @ rs) = gram_schmidt (B @ P) rs"
proof (induction P arbitrary: B)
  case Nil
  then show ?case by simp
next
  case (Cons q P)
  have o: "orthonormal_rows ((B @ [q]) @ P)" using Cons.prems(1) by simp
  have d: "rows_of_dim d ((B @ [q]) @ P)" using Cons.prems(2) by simp
  from o have "orthonormal_rows (B @ [q])" by (rule orthonormal_rows_prefix)
  then have qq: "dot q q = 1" and bq: "\<forall>r \<in> set B. dot r q = 0"
    by (simp_all add: orthonormal_rows_snoc)
  have lq: "length q = d" and db: "rows_of_dim d B"
    using Cons.prems(2) by (simp_all add: rows_of_dim_def)
  have qb: "\<forall>r \<in> set B. dot q r = 0"
  proof
    fix r assume "r \<in> set B"
    with bq have "dot r q = 0" by simp
    moreover have "dot q r = dot r q" by (rule dot_commute)
    ultimately show "dot q r = 0" by simp
  qed
  have res: "residual B q = q"
    using db qb unfolding lq[symmetric] by (rule residual_fixed)
  have nz: "\<not> list_all (\<lambda>z. z = 0) q"
  proof
    assume "list_all (\<lambda>z. z = 0) q"
    then have "dot q q = 0" by (rule all_zero_dot)
    with qq show False by simp
  qed
  have "linalg_norm q = sqrt (dot q q)" by (simp add: linalg_norm_def dot_self)
  then have norm: "linalg_norm q = 1" by (simp add: qq)
  have "map ((*) 1) q = q" by (induction q) simp_all
  then have sc: "vscale (1 / linalg_norm q) q = q" by (simp add: norm vscale_def)
  have "gram_schmidt B ((q # P) @ rs) = gram_schmidt (B @ [q]) (P @ rs)"
    using nz by (simp add: res sc Let_def)
  also have "\<dots> = gram_schmidt ((B @ [q]) @ P) rs" using o d by (rule Cons.IH)
  finally show ?case by simp
qed

lemma orth_gs_rank:
  assumes "orthonormal_rows P" and "rows_of_dim (length r) P" and "outside_span P r"
  shows "length (orth_gs (P @ [r])) = Suc (length P)"
proof -
  have "gram_schmidt [] (P @ [r]) = gram_schmidt ([] @ P) [r]"
    by (rule gram_schmidt_prefix[where d = "length r"]) (simp_all add: assms)
  then show ?thesis
    using assms(3) by (simp add: orth_gs_def outside_span_def Let_def)
qed

lemma orth_gs_ok: "orth_ok orth_gs"
proof -
  have rows: "orthonormal_rows (orth_gs M) \<and> length (orth_gs M) \<le> length M
              \<and> rows_of_dim d (orth_gs M)" if "rows_of_dim d M" for M d
    using gram_schmidt_ok[of "[]" d M] that
    by (simp add: orth_gs_def orthonormal_rows_def rows_of_dim_def)
  have rank: "length (orth_gs (P @ [r])) = Suc (length P)"
    if "orthonormal_rows P \<and> rows_of_dim (length r) P \<and> outside_span P r" for P r
    using that by (simp add: orth_gs_rank)
  show ?thesis
    unfolding orth_ok_def
  proof (rule conjI)
    show "\<forall>M d. rows_of_dim d M \<longrightarrow>
            orthonormal_rows (orth_gs M) \<and> length (orth_gs M) \<le> length M
            \<and> rows_of_dim d (orth_gs M)"
      using rows by blast
    show "\<forall>P r. orthonormal_rows P \<and> rows_of_dim (length r) P \<and> outside_span P r \<longrightarrow>
            length (orth_gs (P @ [r])) = Suc (length P)"
      using rank by blast
  qed
qed

lemma orth_ok_rows:
  "orth_ok orth \<Longrightarrow> rows_of_dim d M \<Longrightarrow>
   orthonormal_rows (orth M) \<and> length (orth M) \<le> length M \<and> rows_of_dim d (orth M)"
  unfolding orth_ok_def by blast

lemma orth_ok_rank:
  "orth_ok orth \<Longrightarrow> orthonormal_rows P \<Longrightarrow> rows_of_dim (length r) P \<Longrightarrow> outside_span P r \<Longrightarrow>
   length (orth (P @ [r])) = Suc (length P)"
  unfolding orth_ok_def by blast

lemma pad_to_three_never:
  assumes inv: "\<And>k P. I P \<Longrightarrow> length P < 3 \<and> I (orth (P @ [draws k]))"
    and start: "I P"
  shows "pad_to_three orth draws k P = None"
proof (rule ccontr)
  assume "pad_to_three orth draws k P \<noteq> None"
  then obtain y where some: "pad_to_three orth draws k P = Some y" by auto
  have "fst (fst (fst (((orth, draws), k), P))) = orth
        \<and> snd (fst (fst (((orth, draws), k), P))) = draws
        \<longrightarrow> \<not> I (snd (((orth, draws), k), P))"
  proof (rule pad_to_three.raw_induct[where ?Pa = "\<lambda>x y.
            fst (fst (fst x)) = orth \<and> snd (fst (fst x)) = draws \<longrightarrow> \<not> I (snd x)", OF _ some])
    fix f o' d' k' P' y'
    assume ih: "\<And>o'' d'' k'' P'' y''. f o'' d'' k'' P'' = Some y'' \<Longrightarrow>
                  fst (fst (fst (((o'', d''), k''), P''))) = orth
                  \<and> snd (fst (fst (((o'', d''), k''), P''))) = draws
                  \<longrightarrow> \<not> I (snd (((o'', d''), k''), P''))"
      and body: "(if length P' < 3 then f o' d' (Suc k') (o' (P' @ [d' k'])) else Some P') = Some y'"
    show "fst (fst (fst (((o', d'), k'), P'))) = orth
          \<and> snd (fst (fst (((o', d'), k'), P'))) = draws
          \<longrightarrow> \<not> I (snd (((o', d'), k'), P'))"
    proof (intro impI notI)
      assume e: "fst (fst (fst (((o', d'), k'), P'))) = orth
                 \<and> snd (fst (fst (((o', d'), k'), P'))) = draws"
        and i: "I (snd (((o', d'), k'), P'))"
      then have o: "o' = orth" "d' = draws" and ip: "I P'" by simp_all
      from inv[OF ip, of k'] have small: "length P' < 3" and nxt: "I (orth (P' @ [draws k']))"
        by simp_all
      from body small o have "f orth draws (Suc k') (orth (P' @ [draws k'])) = Some y'" by simp
      from ih[OF this] nxt show False by simp
    qed
  qed
  with start show False by simp
qed

lemma pad_to_three_unroll:
  "\<forall>m < n. length (padded orth draws P m) < 3 \<Longrightarrow>
   pad_to_three orth draws 0 P = pad_to_three orth draws n (padded orth draws P n)"
proof (induction n)
  case 0
  then show ?case by simp
next
  case (Suc n)
  then have "pad_to_three orth draws 0 P = pad_to_three orth draws n (padded orth draws P n)"
    by simp
  also have "\<dots> = pad_to_three orth draws (Suc n) (padded orth draws P (Suc n))"
    using Suc.prems by (subst pad_to_three.simps) simp
  finally show ?case .
qed

lemma padded_ok:
  assumes "orth_ok orth" and "rows_of_dim d M" and "\<forall>k. length (draws k) = d"
  shows "rows_of_dim d (padded orth draws (orth M) n)
       \<and> orthonormal_rows (padded orth draws (orth M) n)"
proof (induction n)
  case 0
  from orth_ok_rows[OF assms(1,2)] show ?case by simp
next
  case (Suc n)
  then have "rows_of_dim d (padded orth draws (orth M) n @ [draws n])"
    using assms(3) by (simp add: rows_of_dim_def)
  from orth_ok_rows[OF assms(1) this] show ?case by simp
qed

lemma padded_grows_by_one:
  assumes "orth_ok orth" and "rows_of_dim d M" and "\<forall>k. length (draws k) = d"
  shows "length (padded orth draws (orth M) (Suc n)) \<le> Suc (length (padded orth draws (orth M) n))"
proof -
  from padded_ok[OF assms, of n] have "rows_of_dim d (padded orth draws (orth M) n @ [draws n])"
    using assms(3) by (simp add: rows_of_dim_def)
  from orth_ok_rows[OF assms(1) this]
  have "length (orth (padded orth draws (orth M) n @ [draws n]))
          \<le> length (padded orth draws (orth M) n @ [draws n])"
    by simp
  then show ?thesis by simp
qed

lemma orthonormal_dim0: "orthonormal_rows P \<Longrightarrow> rows_of_dim 0 P \<Longrightarrow> length P = 0"
proof (rule ccontr)
  assume o: "orthonormal_rows P" and d: "rows_of_dim 0 P" and "length P \<noteq> 0"
  then have "0 < length P" by simp
  with o have "dot (P ! 0) (P ! 0) = 1" by (simp add: orthonormal_rows_def)
  moreover have "P ! 0 = []" using d \<open>0 < length P\<close> by (simp add: rows_of_dim_def list_all_length)
  ultimately show False by (simp add: dot_def)
qed

lemma orthonormal_dim1: "orthonormal_rows P \<Longrightarrow> rows_of_dim 1 P \<Longrightarrow> length P \<le> 1"
proof (rule ccontr)
  assume o: "orthonormal_rows P" and d: "rows_of_dim 1 P" and n: "\<not> length P \<le> 1"
  from n have l: "0 < length P" "Suc 0 < length P" by linarith+
  have one: "\<exists>a. P ! i = [a]" if "i < length P" for i
  proof -
    from d that have "length (P ! i) = Suc 0" by (simp add: rows_of_dim_def list_all_length)
    then show ?thesis by (auto simp: length_Suc_conv)
  qed
  from one[OF l(1)] one[OF l(2)] obtain a b where ab: "P ! 0 = [a]" "P ! Suc 0 = [b]" by blast
  from o l have "dot (P ! 0) (P ! 0) = 1" "dot (P ! 0) (P ! Suc 0) = 0"
    "dot (P ! Suc 0) (P ! Suc 0) = 1"
    by (simp_all add: orthonormal_rows_def)
  then have "a * a = 1" "a * b = 0" "b * b = 1" by (simp_all add: ab dot_def)
  then show False by auto
qed

lemma orthonormal_dim2: "orthonormal_rows P \<Longrightarrow> rows_of_dim 2 P \<Longrightarrow> length P \<le> 2"
proof (rule ccontr)
  assume o: "orthonormal_rows P" and d: "rows_of_dim 2 P" and n: "\<not> length P \<le> 2"
  from n have l: "0 < length P" "Suc 0 < length P" "Suc (Suc 0) < length P" by linarith+
  have two: "\<exists>a b. P ! i = [a, b]" if "i < length P" for i
  proof -
    from d that have "length (P ! i) = Suc (Suc 0)"
      by (simp add: rows_of_dim_def list_all_length)
    then show ?thesis by (auto simp: length_Suc_conv)
  qed
  from two[OF l(1)] two[OF l(2)] two[OF l(3)]
  obtain a1 a2 b1 b2 c1 c2 where r: "P ! 0 = [a1, a2]" "P ! Suc 0 = [b1, b2]"
    "P ! Suc (Suc 0) = [c1, c2]" by blast
  from o l have "dot (P ! 0) (P ! 0) = 1" "dot (P ! Suc 0) (P ! Suc 0) = 1"
    "dot (P ! Suc (Suc 0)) (P ! Suc (Suc 0)) = 1"
    "dot (P ! 0) (P ! Suc 0) = 0" "dot (P ! 0) (P ! Suc (Suc 0)) = 0"
    "dot (P ! Suc 0) (P ! Suc (Suc 0)) = 0"
    by (simp_all add: orthonormal_rows_def)
  then have e: "a1 * a1 + a2 * a2 = 1" "b1 * b1 + b2 * b2 = 1" "c1 * c1 + c2 * c2 = 1"
    "a1 * b1 + a2 * b2 = 0" "a1 * c1 + a2 * c2 = 0" "b1 * c1 + b2 * c2 = 0"
    unfolding r by (simp_all add: dot_def)
  define D where "D = b1 * c2 - b2 * c1"
  have "a1 * D = (a1 * b1) * c2 - b2 * (a1 * c1)" by (simp add: D_def algebra_simps)
  also have "a1 * b1 = - (a2 * b2)" using e(4) by linarith
  also have "a1 * c1 = - (a2 * c2)" using e(5) by linarith
  also have "(- (a2 * b2)) * c2 - b2 * (- (a2 * c2)) = 0" by (simp add: algebra_simps)
  finally have d1: "a1 * D = 0" .
  have "a2 * D = b1 * (a2 * c2) - (a2 * b2) * c1" by (simp add: D_def algebra_simps)
  also have "a2 * c2 = - (a1 * c1)" using e(5) by linarith
  also have "a2 * b2 = - (a1 * b1)" using e(4) by linarith
  also have "b1 * (- (a1 * c1)) - (- (a1 * b1)) * c1 = 0" by (simp add: algebra_simps)
  finally have d2: "a2 * D = 0" .
  have "D = (a1 * a1 + a2 * a2) * D" using e(1) by simp
  also have "\<dots> = a1 * (a1 * D) + a2 * (a2 * D)" by (simp add: algebra_simps)
  also have "\<dots> = 0" unfolding d1 d2 by simp
  finally have D0: "D = 0" .
  have "(b1 * c1 + b2 * c2)\<^sup>2 + D\<^sup>2 = (b1 * b1 + b2 * b2) * (c1 * c1 + c2 * c2)"
    by (simp add: D_def power2_eq_square algebra_simps)
  with e(2,3,6) D0 show False by simp
qed

lemma orthonormal_needs_dim:
  assumes "orthonormal_rows P" and "rows_of_dim d P" and "3 \<le> length P"
  shows "3 \<le> d"
proof (rule ccontr)
  assume "\<not> 3 \<le> d"
  then consider "d = 0" | "d = 1" | "d = 2" by linarith
  then show False
  proof cases
    case 1
    from assms(1,2) have "length P = 0" unfolding 1 by (rule orthonormal_dim0)
    with assms(3) show False by simp
  next
    case 2
    from assms(1,2) have "length P \<le> 1" unfolding 2 by (rule orthonormal_dim1)
    with assms(3) show False by simp
  next
    case 3
    from assms(1,2) have "length P \<le> 2" unfolding 3 by (rule orthonormal_dim2)
    with assms(3) show False by simp
  qed
qed

text \<open>In a dimension below 3 the loop never ends, whatever the orthonormalisation and
  the random rows.\<close>

lemma get_projection_matrix_low_dim:
  assumes ok: "orth_ok orth"
    and dims: "length w = d" "length centroid = d" "length centroid_vec = d"
    and draws: "\<forall>k. length (draws k) = d"
    and low: "d < 3"
  shows "get_projection_matrix orth draws w centroid centroid_vec = None"
proof -
  define I where "I = (\<lambda>P. orthonormal_rows P \<and> rows_of_dim d P)"
  have inv: "length P < 3 \<and> I (orth (P @ [draws k]))" if "I P" for k P
  proof
    show "length P < 3"
    proof (rule ccontr)
      assume "\<not> length P < 3"
      then have "3 \<le> length P" by simp
      with that have "3 \<le> d" unfolding I_def by (auto intro: orthonormal_needs_dim)
      with low show False by simp
    qed
    have "rows_of_dim d (P @ [draws k])"
      using that draws by (simp add: I_def rows_of_dim_def)
    from orth_ok_rows[OF ok this] show "I (orth (P @ [draws k]))" unfolding I_def by simp
  qed
  have "rows_of_dim d [w, centroid, centroid_vec]" using dims by (simp add: rows_of_dim_def)
  from orth_ok_rows[OF ok this] have start: "I (orth [w, centroid, centroid_vec])"
    unfolding I_def by simp
  show ?thesis
    unfolding get_projection_matrix_def using inv start by (rule pad_to_three_never)
qed

text \<open>When some round of padding leaves three rows the loop ends, at the first such
  round.\<close>

lemma get_projection_matrix_if_full:
  assumes ok: "orth_ok orth"
    and dims: "length w = d" "length centroid = d" "length centroid_vec = d"
    and draws: "\<forall>k. length (draws k) = d"
    and full: "3 \<le> length (padded orth draws (orth [w, centroid, centroid_vec]) n)"
  shows "\<exists>m P. m \<le> n \<and> P = padded orth draws (orth [w, centroid, centroid_vec]) m
           \<and> get_projection_matrix orth draws w centroid centroid_vec = Some P
           \<and> length P = 3 \<and> rows_of_dim d P \<and> orthonormal_rows P \<and> 3 \<le> d"
proof -
  let ?M = "[w, centroid, centroid_vec]"
  let ?P = "padded orth draws (orth ?M)"
  have dm: "rows_of_dim d ?M" using dims by (simp add: rows_of_dim_def)
  define m where "m = (LEAST k. 3 \<le> length (?P k))"
  have at: "3 \<le> length (?P m)" unfolding m_def using full by (rule LeastI)
  have mn: "m \<le> n" unfolding m_def using full by (rule Least_le)
  have before: "\<forall>k < m. length (?P k) < 3"
  proof (intro allI impI)
    fix k assume "k < m"
    then have "\<not> 3 \<le> length (?P k)" unfolding m_def by (rule not_less_Least)
    then show "length (?P k) < 3" by simp
  qed
  have le: "length (?P m) \<le> 3"
  proof (cases m)
    case 0
    from orth_ok_rows[OF ok dm] have "length (orth ?M) \<le> length ?M" by simp
    with 0 show ?thesis by simp
  next
    case (Suc j)
    with before have "length (?P j) < 3" by simp
    moreover from padded_grows_by_one[OF ok dm draws, of j]
    have "length (?P (Suc j)) \<le> Suc (length (?P j))" .
    ultimately show ?thesis using Suc by simp
  qed
  have "pad_to_three orth draws 0 (orth ?M) = pad_to_three orth draws m (?P m)"
    using before by (rule pad_to_three_unroll)
  also have "\<dots> = Some (?P m)" using at by (subst pad_to_three.simps) simp
  finally have ret: "get_projection_matrix orth draws w centroid centroid_vec = Some (?P m)"
    by (simp add: get_projection_matrix_def)
  from padded_ok[OF ok dm draws, of m]
  have good: "rows_of_dim d (?P m)" "orthonormal_rows (?P m)" by simp_all
  have d3: "3 \<le> d" using good(2,1) at by (rule orthonormal_needs_dim)
  from ret at le good d3 mn show ?thesis by auto
qed

text \<open>While the matrix has fewer than three rows, a random row outside the span of its
  rows adds one row.\<close>

lemma padded_rank_growth:
  assumes ok: "orth_ok orth" and dm: "rows_of_dim d M" and draws: "\<forall>k. length (draws k) = d"
    and indep: "\<forall>k < 3. length (padded orth draws (orth M) k) < 3 \<longrightarrow>
                  outside_span (padded orth draws (orth M) k) (draws k)"
    and start: "length (orth M) \<le> 3"
  shows "j \<le> 3 - length (orth M) \<Longrightarrow>
         length (padded orth draws (orth M) j) = length (orth M) + j"
proof (induction j)
  case 0
  then show ?case by simp
next
  case (Suc j)
  let ?P = "padded orth draws (orth M) j"
  from Suc have len: "length ?P = length (orth M) + j" by simp
  with Suc.prems have small: "length ?P < 3" and j3: "j < 3" by simp_all
  from indep j3 small have out: "outside_span ?P (draws j)" by blast
  from padded_ok[OF ok dm draws, of j]
  have "rows_of_dim d ?P" and on: "orthonormal_rows ?P" by simp_all
  then have rd: "rows_of_dim (length (draws j)) ?P" using draws by simp
  from orth_ok_rank[OF ok on rd out] len show ?case by simp
qed

text \<open>
  C9, amended.  Let the three input vectors and every random row have the dimension \<open>d\<close>,
  and let \<open>orth\<close> return orthonormal rows of that dimension, as many as the rank of its
  argument.  For \<open>d < 3\<close> \<^verbatim>\<open>get_projection_matrix\<close> never returns.  When each of the
  first three random rows that is drawn while the matrix has fewer than three rows lies
  outside the span of the rows the matrix has then, as a normal draw in a dimension
  \<open>d \<ge> 3\<close> does with probability 1, \<^verbatim>\<open>get_projection_matrix\<close> returns after at most
  three rounds of padding; its result has exactly 3 rows of dimension \<open>d\<close>, they are
  mutually orthogonal unit vectors, and \<open>3 \<le> d\<close>.
\<close>

theorem get_projection_matrix_returns:
  assumes ok: "orth_ok orth"
    and dims: "length w = d" "length centroid = d" "length centroid_vec = d"
    and draws: "\<forall>k. length (draws k) = d"
  shows "(d < 3 \<longrightarrow> get_projection_matrix orth draws w centroid centroid_vec = None)
       \<and> ((\<forall>k < 3. length (padded orth draws (orth [w, centroid, centroid_vec]) k) < 3 \<longrightarrow>
              outside_span (padded orth draws (orth [w, centroid, centroid_vec]) k) (draws k))
          \<longrightarrow>
          (\<exists>n P. n \<le> 3 \<and> P = padded orth draws (orth [w, centroid, centroid_vec]) n
             \<and> get_projection_matrix orth draws w centroid centroid_vec = Some P
             \<and> length P = 3 \<and> rows_of_dim d P \<and> orthonormal_rows P \<and> 3 \<le> d))"
proof (intro conjI impI)
  assume "d < 3"
  with ok dims draws show "get_projection_matrix orth draws w centroid centroid_vec = None"
    by (rule get_projection_matrix_low_dim)
next
  let ?M = "[w, centroid, centroid_vec]"
  let ?P = "padded orth draws (orth ?M)"
  assume indep: "\<forall>k < 3. length (?P k) < 3 \<longrightarrow> outside_span (?P k) (draws k)"
  have dm: "rows_of_dim d ?M" using dims by (simp add: rows_of_dim_def)
  from orth_ok_rows[OF ok dm] have start: "length (orth ?M) \<le> 3" by simp
  define n where "n = 3 - length (orth ?M)"
  have "length (?P n) = length (orth ?M) + n"
    using ok dm draws indep start by (rule padded_rank_growth) (simp add: n_def)
  with start have full: "3 \<le> length (?P n)" by (simp add: n_def)
  from get_projection_matrix_if_full[OF ok dims draws full]
  obtain m P where "m \<le> n" and r: "P = ?P m"
    "get_projection_matrix orth draws w centroid centroid_vec = Some P"
    "length P = 3" "rows_of_dim d P" "orthonormal_rows P" "3 \<le> d"
    by blast
  moreover have "n \<le> 3" by (simp add: n_def)
  ultimately have "m \<le> 3" by simp
  with r show "\<exists>n P. n \<le> 3 \<and> P = ?P n
             \<and> get_projection_matrix orth draws w centroid centroid_vec = Some P
             \<and> length P = 3 \<and> rows_of_dim d P \<and> orthonormal_rows P \<and> 3 \<le> d"
    by blast
qed

lemma unit_draws_length: "length (unit_draws d k) = d"
  by (simp add: unit_draws_def)

lemma orth_gs_zero_row: "orth_gs ([] @ [[0, 0, 0]]) = []"
  by (simp add: orth_gs_def residual_def)

lemma orth_gs_zero: "orth_gs [[0, 0, 0], [0, 0, 0], [0, 0, 0]] = []"
  by (simp add: orth_gs_def residual_def)

lemma get_projection_matrix_zero_draws:
  "get_projection_matrix orth_gs (\<lambda>k. [0, 0, 0]) [0, 0, 0] [0, 0, 0] [0, 0, 0] = None"
  unfolding get_projection_matrix_def
proof (rule pad_to_three_never[where I = "\<lambda>P. P = []"])
  fix k :: nat and P :: matrix
  assume "P = []"
  then show "length P < 3 \<and> orth_gs (P @ [[0, 0, 0]]) = []"
    using orth_gs_zero_row by simp
next
  show "orth_gs [[0, 0, 0], [0, 0, 0], [0, 0, 0]] = []" by (rule orth_gs_zero)
qed

text \<open>
  C9, as the claim states it, fails.  For the three zero vectors of dimension 1, with
  Gram-Schmidt as the orthonormalisation and unit vectors as the random rows,
  \<^verbatim>\<open>get_projection_matrix\<close> never returns: no matrix with rows of dimension 1 has three
  orthonormal rows, so the loop \<^verbatim>\<open>while P.shape[0] < 3\<close> never ends.  In dimension 3 the
  loop ends only through the random rows: for the three zero vectors and random rows
  that add nothing to the span (zero rows, which a normal draw gives with probability 0)
  it never returns either.
\<close>

theorem get_projection_matrix_counterexample:
  "orth_ok orth_gs \<and> (\<forall>k. length (unit_draws 1 k) = 1)
   \<and> get_projection_matrix orth_gs (unit_draws 1) [0] [0] [0] = None
   \<and> get_projection_matrix orth_gs (\<lambda>k. [0, 0, 0]) [0, 0, 0] [0, 0, 0] [0, 0, 0] = None"
proof -
  have "get_projection_matrix orth_gs (unit_draws 1) [0] [0] [0] = None"
    by (rule get_projection_matrix_low_dim[OF orth_gs_ok, where d = 1])
       (simp_all add: unit_draws_length)
  then show ?thesis
    using orth_gs_ok get_projection_matrix_zero_draws by (simp add: unit_draws_length)
qed

lemma unit_draws3:
  "unit_draws 3 0 = [1, 0, 0]" "unit_draws 3 (Suc 0) = [0, 1, 0]"
  "unit_draws 3 (Suc (Suc 0)) = [0, 0, 1]"
  by (simp_all add: unit_draws_def upt_rec)

lemma orth_gs_e1: "orth_gs [[1, 0, 0]] = [[1, 0, 0]]"
  by (simp add: orth_gs_def residual_def array_defs)

lemma orth_gs_e2: "orth_gs [[1, 0, 0], [0, 1, 0]] = [[1, 0, 0], [0, 1, 0]]"
  by (simp add: orth_gs_def residual_def array_defs)

lemma orth_gs_e3:
  "orth_gs [[1, 0, 0], [0, 1, 0], [0, 0, 1]] = [[1, 0, 0], [0, 1, 0], [0, 0, 1]]"
  by (simp add: orth_gs_def residual_def array_defs)

lemma padded_example:
  "padded orth_gs (unit_draws 3) (orth_gs [[0, 0, 0], [0, 0, 0], [0, 0, 0]]) (Suc (Suc (Suc 0)))
     = [[1, 0, 0], [0, 1, 0], [0, 0, 1]]"
  by (simp add: orth_gs_zero unit_draws3 orth_gs_e1 orth_gs_e2 orth_gs_e3)

lemma padded_example_before:
  "padded orth_gs (unit_draws 3) (orth_gs [[0, 0, 0], [0, 0, 0], [0, 0, 0]]) (Suc (Suc 0))
     = [[1, 0, 0], [0, 1, 0]]"
  by (simp add: orth_gs_zero unit_draws3 orth_gs_e1 orth_gs_e2)

lemma projection_example:
  "get_projection_matrix orth_gs (unit_draws 3) [0, 0, 0] [0, 0, 0] [0, 0, 0]
     = Some [[1, 0, 0], [0, 1, 0], [0, 0, 1]]"
proof -
  let ?P = "padded orth_gs (unit_draws 3) (orth_gs [[0, 0, 0], [0, 0, 0], [0, 0, 0]])"
  have small: "\<forall>m < Suc (Suc (Suc 0)). length (?P m) < 3"
    by (simp add: less_Suc_eq orth_gs_zero unit_draws3 orth_gs_e1 orth_gs_e2)
  have "pad_to_three orth_gs (unit_draws 3) 0 (orth_gs [[0, 0, 0], [0, 0, 0], [0, 0, 0]])
          = pad_to_three orth_gs (unit_draws 3) (Suc (Suc (Suc 0))) (?P (Suc (Suc (Suc 0))))"
    using small by (rule pad_to_three_unroll)
  also have "\<dots> = Some [[1, 0, 0], [0, 1, 0], [0, 0, 1]]"
    unfolding padded_example by (subst pad_to_three.simps) simp
  finally show ?thesis by (simp add: get_projection_matrix_def)
qed

lemma padded_example_start:
  "padded orth_gs (unit_draws 3) (orth_gs [[0, 0, 0], [0, 0, 0], [0, 0, 0]]) 0 = []"
  "padded orth_gs (unit_draws 3) (orth_gs [[0, 0, 0], [0, 0, 0], [0, 0, 0]]) (Suc 0)
     = [[1, 0, 0]]"
  by (simp_all add: orth_gs_zero unit_draws3 orth_gs_e1)

lemma outside_span_example:
  "outside_span [] (unit_draws 3 0)"
  "outside_span [[1, 0, 0]] (unit_draws 3 (Suc 0))"
  "outside_span [[1, 0, 0], [0, 1, 0]] (unit_draws 3 (Suc (Suc 0)))"
  by (simp_all add: outside_span_def residual_def unit_draws3 array_defs)

theorem get_projection_matrix_returns_witness:
  "orth_ok orth_gs
   \<and> length [0::real, 0, 0] = 3
   \<and> (\<forall>k. length (unit_draws 3 k) = 3)
   \<and> padded orth_gs (unit_draws 3) (orth_gs [[0, 0, 0], [0, 0, 0], [0, 0, 0]]) 0 = []
   \<and> outside_span [] (unit_draws 3 0)
   \<and> padded orth_gs (unit_draws 3) (orth_gs [[0, 0, 0], [0, 0, 0], [0, 0, 0]]) (Suc 0)
       = [[1, 0, 0]]
   \<and> outside_span [[1, 0, 0]] (unit_draws 3 (Suc 0))
   \<and> padded orth_gs (unit_draws 3) (orth_gs [[0, 0, 0], [0, 0, 0], [0, 0, 0]]) (Suc (Suc 0))
       = [[1, 0, 0], [0, 1, 0]]
   \<and> outside_span [[1, 0, 0], [0, 1, 0]] (unit_draws 3 (Suc (Suc 0)))
   \<and> get_projection_matrix orth_gs (unit_draws 3) [0, 0, 0] [0, 0, 0] [0, 0, 0]
       = Some [[1, 0, 0], [0, 1, 0], [0, 0, 1]]
   \<and> (\<exists>n P. n \<le> (3::nat)
          \<and> get_projection_matrix orth_gs (unit_draws 3) [0, 0, 0] [0, 0, 0] [0, 0, 0] = Some P
          \<and> length P = 3 \<and> rows_of_dim 3 P \<and> orthonormal_rows P)
   \<and> length [0::real] = 1
   \<and> (\<forall>k. length (unit_draws 1 k) = 1)
   \<and> (1::nat) < 3
   \<and> get_projection_matrix orth_gs (unit_draws 1) [0] [0] [0] = None"
proof -
  let ?P = "padded orth_gs (unit_draws 3) (orth_gs [[0, 0, 0], [0, 0, 0], [0, 0, 0]])"
  have l: "length [0::real, 0, 0] = 3" by simp
  have dr: "\<forall>k. length (unit_draws 3 k) = 3" by (simp add: unit_draws_length)
  have l1: "length [0::real] = 1" by simp
  have dr1: "\<forall>k. length (unit_draws 1 k) = 1" by (simp add: unit_draws_length)
  have indep: "\<forall>k < 3. length (?P k) < 3 \<longrightarrow> outside_span (?P k) (unit_draws 3 k)"
  proof (intro allI impI)
    fix k :: nat
    assume "k < 3"
    then consider "k = 0" | "k = Suc 0" | "k = Suc (Suc 0)" by linarith
    then show "outside_span (?P k) (unit_draws 3 k)"
    proof cases
      case 1
      then show ?thesis by (simp only: padded_example_start outside_span_example)
    next
      case 2
      then show ?thesis by (simp only: padded_example_start outside_span_example)
    next
      case 3
      then show ?thesis by (simp only: padded_example_before outside_span_example)
    qed
  qed
  have t: "(1::nat) < 3" by simp
  from get_projection_matrix_returns[OF orth_gs_ok l l l dr, THEN conjunct2, THEN mp, OF indep]
  obtain n :: nat and P where "n \<le> 3"
    "get_projection_matrix orth_gs (unit_draws 3) [0, 0, 0] [0, 0, 0] [0, 0, 0] = Some P"
    "length P = 3" "rows_of_dim 3 P" "orthonormal_rows P"
    by blast
  then have a: "\<exists>n P. n \<le> (3::nat)
          \<and> get_projection_matrix orth_gs (unit_draws 3) [0, 0, 0] [0, 0, 0] [0, 0, 0] = Some P
          \<and> length P = 3 \<and> rows_of_dim 3 P \<and> orthonormal_rows P"
    by blast
  from get_projection_matrix_returns[OF orth_gs_ok l1 l1 l1 dr1, THEN conjunct1, THEN mp, OF t]
  have b: "get_projection_matrix orth_gs (unit_draws 1) [0] [0] [0] = None" .
  from orth_gs_ok l dr padded_example_start(1) outside_span_example(1) padded_example_start(2)
    outside_span_example(2) padded_example_before outside_span_example(3) projection_example
    a l1 dr1 t b
  show ?thesis by (intro conjI)
qed

end
